theory Spec2Isabelle
  imports Main "HOL-Library.Word" "HOL-Library.Sublist"
begin

unbundle bit_operations_syntax

section \<open>SimpleObfPass: a shallow embedding of the obfuscation pass\<close>

text \<open>
  The pass of \<^verbatim>\<open>SimpleObfPass.cpp\<close> mutates an LLVM module in place. The module is
  modelled as a value that every operation takes and returns. The parts of the LLVM
  library the pass calls (the module symbol table, \<^verbatim>\<open>ConstantDataArray\<close>) are written
  out as far as the pass observes them, each with a comment naming the library behaviour
  it stands for.
\<close>

subsection \<open>Decimal rendering\<close>

text \<open>
  \<^verbatim>\<open>std::to_string\<close> on a non-negative \<^verbatim>\<open>int\<close>: the decimal digits, most significant
  first, no leading zero. The loop index \<^verbatim>\<open>i\<close> and \<^verbatim>\<open>rand() % 10000\<close> are never negative.
\<close>

fun to_string :: "nat \<Rightarrow> string" where
  "to_string n =
     (if n < 10 then [''0123456789'' ! n]
      else to_string (n div 10) @ [''0123456789'' ! (n mod 10)])"

declare to_string.simps [simp del]

text \<open>\<^verbatim>\<open>StringRef::endswith\<close> and \<^verbatim>\<open>StringRef::startswith\<close>.\<close>

definition endswith :: "string \<Rightarrow> string \<Rightarrow> bool" where
  "endswith s suf = (length suf \<le> length s \<and> drop (length s - length suf) s = suf)"

definition startswith :: "string \<Rightarrow> string \<Rightarrow> bool" where
  "startswith s pre = (take (length pre) s = pre)"

subsection \<open>The module\<close>

datatype LinkageTypes = ExternalLinkage | InternalLinkage | PrivateLinkage | OtherLinkage

text \<open>
  The initializer of a global. \<^verbatim>\<open>ConstantDataArray\<close> stands for a data array of
  \<^verbatim>\<open>i8\<close> (the only kind for which \<^verbatim>\<open>isString()\<close> holds), \<^verbatim>\<open>ConstantAggregateZero n\<close>
  for \<^verbatim>\<open>[n x i8] zeroinitializer\<close>, \<^verbatim>\<open>OtherConstant\<close> for every other constant
  (on which either the \<^verbatim>\<open>dyn_cast\<close> or \<^verbatim>\<open>isString()\<close> fails).
\<close>

datatype Constant =
    ConstantDataArray "8 word list"
  | ConstantAggregateZero nat
  | OtherConstant

record GlobalVariable =
  gv_name :: string
  gv_linkage :: LinkageTypes
  gv_isConstant :: bool
  gv_initializer :: "Constant option"

text \<open>
  Instructions, as far as the pass creates them; \<^verbatim>\<open>OtherInst\<close> is any instruction of the
  input module. A block is referred to by its position in the block list of its function
  (blocks are only ever appended), the result of an instruction by a number.
\<close>

datatype Value = ConstantInt nat int | Argument nat | Local nat

datatype Instruction =
    Add nat Value Value
  | Mul nat Value Value
  | Ret Value
  | Br nat
  | CondBr Value nat nat
  | OtherInst

type_synonym BasicBlock = "Instruction list"

record Function =
  fn_name :: string
  fn_linkage :: LinkageTypes
  fn_blocks :: "BasicBlock list"

text \<open>
  \<^verbatim>\<open>LastUnique\<close> is the counter of the module's symbol table
  (\<^verbatim>\<open>ValueSymbolTable::LastUnique\<close>), from which the numbers of made-unique names come
  (32 bits in LLVM; a natural number here, the pass being far from four thousand million
  name collisions).
\<close>

record Module =
  GlobalList :: "GlobalVariable list"
  FunctionList :: "Function list"
  LastUnique :: nat

definition isDeclaration :: "Function \<Rightarrow> bool" where
  "isDeclaration F = (fn_blocks F = [])"

subsection \<open>The symbol table of the module\<close>

text \<open>
  Global variables and functions share one symbol table, and LLVM keeps the names in it
  unique: a value whose requested name is taken gets the name followed by a dot and the
  next value of the counter that gives a free name
  (\<^verbatim>\<open>ValueSymbolTable::makeUniqueName\<close>: \<^verbatim>\<open>S << "." << ++LastUnique\<close>, repeated until the
  insertion succeeds). The pass relies on this each time it calls \<^verbatim>\<open>setName\<close>,
  \<^verbatim>\<open>new GlobalVariable\<close> or \<^verbatim>\<open>Function::Create\<close>.
\<close>

definition symbol_names :: "Module \<Rightarrow> string list" where
  "symbol_names M = map gv_name (GlobalList M) @ map fn_name (FunctionList M)"

definition unique_candidate :: "string \<Rightarrow> nat \<Rightarrow> string" where
  "unique_candidate Name n = Name @ ''.'' @ to_string n"

lemma digit_inj:
  assumes "a < 10" "b < 10" "''0123456789'' ! a = ''0123456789'' ! b"
  shows "a = b"
proof -
  have "distinct ''0123456789''" by simp
  moreover have "a < length ''0123456789''" "b < length ''0123456789''"
    using assms by simp_all
  ultimately show ?thesis
    using assms(3) nth_eq_iff_index_eq by blast
qed

lemma to_string_not_Nil: "to_string n \<noteq> []"
  by (subst to_string.simps) simp

lemma to_string_inj: "to_string n = to_string m \<Longrightarrow> n = m"
proof (induction n arbitrary: m rule: to_string.induct)
  case (1 n)
  show ?case
  proof (cases "n < 10")
    case True
    then have n: "to_string n = [''0123456789'' ! n]"
      by (subst to_string.simps) simp
    show ?thesis
    proof (cases "m < 10")
      case True
      then have "to_string m = [''0123456789'' ! m]"
        by (subst to_string.simps) simp
      with n "1.prems" have "''0123456789'' ! n = ''0123456789'' ! m" by simp
      with \<open>n < 10\<close> \<open>m < 10\<close> show ?thesis by (rule digit_inj)
    next
      case False
      then have "to_string m = to_string (m div 10) @ [''0123456789'' ! (m mod 10)]"
        by (subst to_string.simps) simp
      with n "1.prems" to_string_not_Nil [of "m div 10"] show ?thesis by simp
    qed
  next
    case False
    then have n: "to_string n = to_string (n div 10) @ [''0123456789'' ! (n mod 10)]"
      by (subst to_string.simps) simp
    show ?thesis
    proof (cases "m < 10")
      case True
      then have "to_string m = [''0123456789'' ! m]"
        by (subst to_string.simps) simp
      with n "1.prems" to_string_not_Nil [of "n div 10"] show ?thesis by simp
    next
      case m: False
      then have "to_string m = to_string (m div 10) @ [''0123456789'' ! (m mod 10)]"
        by (subst to_string.simps) simp
      with n "1.prems" have eq: "to_string (n div 10) = to_string (m div 10)"
        and d: "''0123456789'' ! (n mod 10) = ''0123456789'' ! (m mod 10)"
        by simp_all
      from "1.IH" [OF False eq] have "n div 10 = m div 10" .
      moreover have "n mod 10 = m mod 10"
        by (rule digit_inj [OF _ _ d]) simp_all
      ultimately show ?thesis
        by (metis div_mult_mod_eq)
    qed
  qed
qed

lemma unique_candidate_inj: "inj (unique_candidate Name)"
  by (rule injI) (simp add: unique_candidate_def to_string_inj)

lemma finite_candidates: "finite {k. l < k \<and> unique_candidate Name k \<in> set used}"
proof -
  have "finite (unique_candidate Name -` set used)"
    by (rule finite_vimageI [OF _ unique_candidate_inj]) simp
  then show ?thesis
    by (rule rev_finite_subset) auto
qed

function makeUniqueName :: "string list \<Rightarrow> string \<Rightarrow> nat \<Rightarrow> string \<times> nat" where
  "makeUniqueName used Name lastUnique =
     (if unique_candidate Name (Suc lastUnique) \<in> set used
      then makeUniqueName used Name (Suc lastUnique)
      else (unique_candidate Name (Suc lastUnique), Suc lastUnique))"
  by pat_completeness auto
termination
proof (relation "measure (\<lambda>(used, Name, l). card {k. l < k \<and> unique_candidate Name k \<in> set used})")
  show "wf (measure (\<lambda>(used, Name, l). card {k. l < k \<and> unique_candidate Name k \<in> set used}))"
    by simp
next
  fix used :: "string list" and Name :: string and lastUnique :: nat
  assume taken: "unique_candidate Name (Suc lastUnique) \<in> set used"
  have "{k. Suc lastUnique < k \<and> unique_candidate Name k \<in> set used}
      \<subset> {k. lastUnique < k \<and> unique_candidate Name k \<in> set used}"
    using taken by auto
  then have "card {k. Suc lastUnique < k \<and> unique_candidate Name k \<in> set used}
      < card {k. lastUnique < k \<and> unique_candidate Name k \<in> set used}"
    by (rule psubset_card_mono [OF finite_candidates])
  then show "((used, Name, Suc lastUnique), (used, Name, lastUnique))
      \<in> measure (\<lambda>(used, Name, l). card {k. l < k \<and> unique_candidate Name k \<in> set used})"
    by simp
qed

declare makeUniqueName.simps [simp del]

text \<open>
  \<^verbatim>\<open>ValueSymbolTable::createValueName\<close>: the requested name if it is free, a made-unique
  one otherwise. The result is the name given and the new value of the counter.
\<close>

definition createValueName :: "string list \<Rightarrow> string \<Rightarrow> nat \<Rightarrow> string \<times> nat" where
  "createValueName used Name lastUnique =
     (if Name \<in> set used then makeUniqueName used Name lastUnique else (Name, lastUnique))"

text \<open>
  \<^verbatim>\<open>GV->setName(NewName)\<close> on the global at position \<^verbatim>\<open>i\<close>: nothing happens when the
  name is the one it has; otherwise its old name leaves the table and the new one is
  entered. (The pass never asks for an empty name, and the unnamed values of a module,
  which are not in LLVM's table, have the empty name here.)
\<close>

definition GV_setName :: "Module \<Rightarrow> nat \<Rightarrow> string \<Rightarrow> Module" where
  "GV_setName M i NewName =
     (let GV = GlobalList M ! i in
      if NewName = gv_name GV then M
      else
        let used = map gv_name (take i (GlobalList M) @ drop (Suc i) (GlobalList M))
                   @ map fn_name (FunctionList M);
            (n, lu) = createValueName used NewName (LastUnique M)
        in M\<lparr>GlobalList := (GlobalList M)[i := GV\<lparr>gv_name := n\<rparr>], LastUnique := lu\<rparr>)"

definition GV_setInitializer :: "Module \<Rightarrow> nat \<Rightarrow> Constant \<Rightarrow> Module" where
  "GV_setInitializer M i InitVal =
     M\<lparr>GlobalList := (GlobalList M)[i := (GlobalList M ! i)\<lparr>gv_initializer := Some InitVal\<rparr>]\<rparr>"

text \<open>
  \<^verbatim>\<open>new GlobalVariable(M, Ty, isConstant, Linkage, Initializer, Name)\<close>: the new global
  is appended to the list of globals of the module and entered in the symbol table.
\<close>

definition new_GlobalVariable ::
    "Module \<Rightarrow> bool \<Rightarrow> LinkageTypes \<Rightarrow> Constant \<Rightarrow> string \<Rightarrow> Module" where
  "new_GlobalVariable M isConst Linkage Initializer Name =
     (let (n, lu) = createValueName (symbol_names M) Name (LastUnique M)
      in M\<lparr>GlobalList := GlobalList M @
              [\<lparr>gv_name = n, gv_linkage = Linkage, gv_isConstant = isConst,
                gv_initializer = Some Initializer\<rparr>],
            LastUnique := lu\<rparr>)"

text \<open>
  \<^verbatim>\<open>Function::Create(FT, Linkage, Name, M)\<close>, with the blocks that the pass then builds
  in the new function: the function is appended to the functions of the module.
\<close>

definition Function_Create ::
    "Module \<Rightarrow> LinkageTypes \<Rightarrow> string \<Rightarrow> BasicBlock list \<Rightarrow> Module" where
  "Function_Create M Linkage Name blocks =
     (let (n, lu) = createValueName (symbol_names M) Name (LastUnique M)
      in M\<lparr>FunctionList := FunctionList M @
              [\<lparr>fn_name = n, fn_linkage = Linkage, fn_blocks = blocks\<rparr>],
            LastUnique := lu\<rparr>)"

subsection \<open>Constant data arrays\<close>

text \<open>
  \<^verbatim>\<open>ConstantDataArray::get(Context, Elts)\<close>: LLVM returns the canonical zero initializer
  when every element is zero, and a data array otherwise.
\<close>

definition ConstantDataArray_get :: "8 word list \<Rightarrow> Constant" where
  "ConstantDataArray_get Elts =
     (if list_all (\<lambda>b. b = 0) Elts then ConstantAggregateZero (length Elts)
      else ConstantDataArray Elts)"

text \<open>
  \<^verbatim>\<open>isCString()\<close>: the last element is zero and no other is. \<^verbatim>\<open>getAsCString()\<close> asserts
  it and returns the array without its last element; the failed assertion is \<^verbatim>\<open>None\<close>.
\<close>

definition isCString :: "8 word list \<Rightarrow> bool" where
  "isCString bs = (bs \<noteq> [] \<and> last bs = 0 \<and> 0 \<notin> set (butlast bs))"

definition getAsCString :: "8 word list \<Rightarrow> 8 word list option" where
  "getAsCString bs = (if isCString bs then Some (butlast bs) else None)"

text \<open>The bytes an initializer stands for, whichever way LLVM stores them.\<close>

fun payload_bytes :: "Constant \<Rightarrow> 8 word list option" where
  "payload_bytes (ConstantDataArray bs) = Some bs"
| "payload_bytes (ConstantAggregateZero n) = Some (replicate n 0)"
| "payload_bytes OtherConstant = None"

subsection \<open>Byte transformation of the encryptor\<close>

text \<open>
  \<^verbatim>\<open>encrypted.push_back(originalStr[i] ^ (XorKey & 0xFF))\<close>: the character is promoted
  to \<^verbatim>\<open>int\<close> (as a signed \<^verbatim>\<open>char\<close>), XORed with the low byte of the key, and the
  \<^verbatim>\<open>int\<close> is truncated to \<^verbatim>\<open>uint8_t\<close> by \<^verbatim>\<open>push_back\<close>.
\<close>

definition xor_byte :: "int \<Rightarrow> 8 word \<Rightarrow> 8 word" where
  "xor_byte XorKey c = word_of_int (sint c XOR (XorKey AND 0xFF))"

text \<open>
  Lines 133-137 of \<^verbatim>\<open>encryptString\<close>: the vector \<^verbatim>\<open>encrypted\<close> built from the
  characters of \<^verbatim>\<open>originalStr\<close> (the string without its terminator), followed by the
  pushed byte 0.
\<close>

definition encrypted_bytes :: "int \<Rightarrow> 8 word list \<Rightarrow> 8 word list" where
  "encrypted_bytes XorKey originalStr = map (xor_byte XorKey) originalStr @ [0]"

subsection \<open>The pass\<close>

text \<open>
  The command line options, and the state of the pass object: the module it works on, its
  three counters (\<^verbatim>\<open>unsigned\<close>, 32 bits), and how many times \<^verbatim>\<open>rand()\<close> has been called.
  The values \<^verbatim>\<open>rand()\<close> returns are a parameter \<open>rnd\<close> of the pass: \<open>rnd k\<close> is what call
  number \<open>k\<close> returns.
\<close>

record Options =
  XorKey :: int
  BogusCount :: int
  Cycles :: int

record PassState =
  ps_module :: Module
  strings_obf_count :: "32 word"
  fake_funcs_inserted :: "32 word"
  cycles_completed :: "32 word"
  rand_calls :: nat

datatype error = AssertionFailed

subsubsection \<open>obfuscateStrings and encryptString\<close>

definition is_string_global :: "GlobalVariable \<Rightarrow> bool" where
  "is_string_global GV =
     (if gv_initializer GV = None then False
      else if \<not> gv_isConstant GV then False
      else if gv_linkage GV = ExternalLinkage then False
      else (case gv_initializer GV of
              Some (ConstantDataArray bs) \<Rightarrow> True
            | _ \<Rightarrow> False))"

text \<open>The vector \<^verbatim>\<open>stringGlobals\<close>: the positions of the globals found, in module order.\<close>

definition stringGlobals :: "Module \<Rightarrow> nat list" where
  "stringGlobals M = filter (\<lambda>i. is_string_global (GlobalList M ! i)) [0..<length (GlobalList M)]"

definition encryptString :: "int \<Rightarrow> Module \<Rightarrow> nat \<Rightarrow> error + Module" where
  "encryptString key M GV =
     (case gv_initializer (GlobalList M ! GV) of
        Some (ConstantDataArray bs) \<Rightarrow>
          (case getAsCString bs of
             None \<Rightarrow> Inl AssertionFailed
           | Some originalStr \<Rightarrow>
               let encrypted = encrypted_bytes key originalStr;
                   encryptedData = ConstantDataArray_get encrypted;
                   M1 = new_GlobalVariable M True PrivateLinkage encryptedData
                          (gv_name (GlobalList M ! GV) @ ''_enc'');
                   M2 = GV_setInitializer M1 GV encryptedData;
                   M3 = GV_setName M2 GV (gv_name (GlobalList M2 ! GV) @ ''_obf'')
               in Inr M3)
      | _ \<Rightarrow> Inl AssertionFailed)"

fun encrypt_found :: "int \<Rightarrow> nat list \<Rightarrow> PassState \<Rightarrow> error + PassState" where
  "encrypt_found key [] st = Inr st"
| "encrypt_found key (GV # GVs) st =
     (case encryptString key (ps_module st) GV of
        Inl e \<Rightarrow> Inl e
      | Inr M' \<Rightarrow>
          encrypt_found key GVs
            (st\<lparr>ps_module := M', strings_obf_count := strings_obf_count st + 1\<rparr>))"

definition obfuscateStrings :: "int \<Rightarrow> PassState \<Rightarrow> error + bool \<times> PassState" where
  "obfuscateStrings key st =
     (case encrypt_found key (stringGlobals (ps_module st)) st of
        Inl e \<Rightarrow> Inl e
      | Inr st' \<Rightarrow> Inr (stringGlobals (ps_module st) \<noteq> [], st'))"

subsubsection \<open>insertBogusFunctions\<close>

text \<open>
  One round \<^verbatim>\<open>j\<close> of the inner loop: an add of the constant \<^verbatim>\<open>j + i\<close> and a multiplication
  by 2, appended to the block; \<^verbatim>\<open>Result\<close> is the value of the last instruction.
\<close>

definition bogus_round :: "nat \<Rightarrow> nat \<Rightarrow> Instruction list \<times> Value \<Rightarrow> Instruction list \<times> Value" where
  "bogus_round i j = (\<lambda>(insts, Result).
     let a = length insts;
         insts1 = insts @ [Add a Result (ConstantInt 32 (int j + int i))];
         m = length insts1;
         insts2 = insts1 @ [Mul m (Local a) (ConstantInt 32 2)]
     in (insts2, Local m))"

definition bogus_entry :: "nat \<Rightarrow> BasicBlock" where
  "bogus_entry i =
     (let (insts, Result) = fold (bogus_round i) [0..<3] ([], Argument 0)
      in insts @ [Ret Result])"

definition insert_bogus :: "(nat \<Rightarrow> nat) \<Rightarrow> nat \<Rightarrow> PassState \<Rightarrow> PassState" where
  "insert_bogus rnd i st =
     (let funcName = ''bogus_func_'' @ to_string i @ ''_''
                       @ to_string (rnd (rand_calls st) mod 10000);
          M' = Function_Create (ps_module st) PrivateLinkage funcName [bogus_entry i]
      in st\<lparr>ps_module := M', rand_calls := Suc (rand_calls st),
            fake_funcs_inserted := fake_funcs_inserted st + 1\<rparr>)"

text \<open>
  \<^verbatim>\<open>for (int i = 0; i < BogusCount; ++i)\<close>: no iteration when \<^verbatim>\<open>BogusCount\<close> is zero or
  negative; \<^verbatim>\<open>changed\<close> is set in every iteration.
\<close>

definition insertBogusFunctions :: "(nat \<Rightarrow> nat) \<Rightarrow> int \<Rightarrow> PassState \<Rightarrow> bool \<times> PassState" where
  "insertBogusFunctions rnd bogusCount st =
     (0 < bogusCount, fold (insert_bogus rnd) [0..<nat bogusCount] st)"

subsubsection \<open>renamePrivateGlobals\<close>

definition toRename :: "Module \<Rightarrow> nat list" where
  "toRename M =
     filter (\<lambda>i. gv_linkage (GlobalList M ! i) = PrivateLinkage
                 \<and> \<not> endswith (gv_name (GlobalList M ! i)) ''_obf''
                 \<and> \<not> endswith (gv_name (GlobalList M ! i)) ''_enc'')
       [0..<length (GlobalList M)]"

definition rename_global :: "nat \<Rightarrow> Module \<Rightarrow> Module" where
  "rename_global GV M = GV_setName M GV (gv_name (GlobalList M ! GV) @ ''_obf'')"

definition renamePrivateGlobals :: "Module \<Rightarrow> bool \<times> Module" where
  "renamePrivateGlobals M = (toRename M \<noteq> [], fold rename_global (toRename M) M)"

subsubsection \<open>insertDeadConditionals\<close>

text \<open>
  \<^verbatim>\<open>Builder.CreateICmpEQ\<close> on two constants: the builder folds the comparison to a
  constant of type \<^verbatim>\<open>i1\<close> and inserts no instruction.
\<close>

definition CreateICmpEQ :: "int \<Rightarrow> int \<Rightarrow> Value" where
  "CreateICmpEQ a b = ConstantInt 1 (if a = b then 1 else 0)"

text \<open>
  The body of the loop for the function it modifies: the conditional branch is inserted
  at the start of the entry block, the two new blocks are appended to the function
  (\<^verbatim>\<open>dead_branch_obf\<close>, then \<^verbatim>\<open>continue_obf\<close>), the dead block branches to the
  continuation block, and the continuation block branches to the entry block
  (\<^verbatim>\<open>ContBuilder.CreateBr(&EntryBB)\<close>), which is block 0.
\<close>

definition add_dead_conditional :: "Function \<Rightarrow> Function" where
  "add_dead_conditional F =
     (let EntryBB = hd (fn_blocks F);
          Cond = CreateICmpEQ 0 1;
          DeadBB = length (fn_blocks F);
          ContBB = Suc (length (fn_blocks F))
      in F\<lparr>fn_blocks :=
             ((CondBr Cond DeadBB ContBB # EntryBB) # tl (fn_blocks F))
             @ [[Br ContBB], [Br 0]]\<rparr>)"

fun dead_conditional_loop :: "Function list \<Rightarrow> bool \<times> Function list" where
  "dead_conditional_loop [] = (False, [])"
| "dead_conditional_loop (F # Fs) =
     (if isDeclaration F \<or> startswith (fn_name F) ''bogus_func_''
      then (fst (dead_conditional_loop Fs), F # snd (dead_conditional_loop Fs))
      else if hd (fn_blocks F) = []
      then (fst (dead_conditional_loop Fs), F # snd (dead_conditional_loop Fs))
      else (True, add_dead_conditional F # Fs))"

definition insertDeadConditionals :: "Module \<Rightarrow> bool \<times> Module" where
  "insertDeadConditionals M =
     (fst (dead_conditional_loop (FunctionList M)),
      M\<lparr>FunctionList := snd (dead_conditional_loop (FunctionList M))\<rparr>)"

subsubsection \<open>runOnModule\<close>

text \<open>One iteration of the loop over the cycles.\<close>

definition run_cycle ::
    "(nat \<Rightarrow> nat) \<Rightarrow> Options \<Rightarrow> bool \<times> PassState \<Rightarrow> error + bool \<times> PassState" where
  "run_cycle rnd opts = (\<lambda>(changed, st).
     case obfuscateStrings (XorKey opts) st of
       Inl e \<Rightarrow> Inl e
     | Inr (c1, st1) \<Rightarrow>
         let (c2, st2) = insertBogusFunctions rnd (BogusCount opts) st1;
             (c3, M3) = renamePrivateGlobals (ps_module st2);
             (c4, M4) = insertDeadConditionals M3
         in Inr (changed \<or> c1 \<or> c2 \<or> c3 \<or> c4,
                 st2\<lparr>ps_module := M4, cycles_completed := cycles_completed st2 + 1\<rparr>))"

fun run_cycles ::
    "nat \<Rightarrow> (nat \<Rightarrow> nat) \<Rightarrow> Options \<Rightarrow> bool \<times> PassState \<Rightarrow> error + bool \<times> PassState" where
  "run_cycles 0 rnd opts cs = Inr cs"
| "run_cycles (Suc n) rnd opts cs =
     (case run_cycle rnd opts cs of
        Inl e \<Rightarrow> Inl e
      | Inr cs' \<Rightarrow> run_cycles n rnd opts cs')"

text \<open>
  \<^verbatim>\<open>for (int cycle = 0; cycle < Cycles; ++cycle)\<close> runs \<^verbatim>\<open>Cycles\<close> times, and not at all
  when \<^verbatim>\<open>Cycles\<close> is zero or negative. The result is \<^verbatim>\<open>changed\<close> and the state of the
  pass, whose counters are what \<^verbatim>\<open>outputTelemetry\<close> then writes.
\<close>

definition runOnModule ::
    "(nat \<Rightarrow> nat) \<Rightarrow> Options \<Rightarrow> PassState \<Rightarrow> error + bool \<times> PassState" where
  "runOnModule rnd opts st = run_cycles (nat (Cycles opts)) rnd opts (False, st)"

text \<open>The pass object as it is constructed: the three counters are zero.\<close>

definition initial :: "Module \<Rightarrow> PassState" where
  "initial M = \<lparr>ps_module = M, strings_obf_count = 0, fake_funcs_inserted = 0,
                cycles_completed = 0, rand_calls = 0\<rparr>"

subsection \<open>Executing a function\<close>

text \<open>
  What running a function yields, for the instructions above: a small interpreter with
  fuel, one unit per instruction. The integer instructions work on 32 bits; a branch
  moves to the start of its target block; an instruction of the input module that the
  model does not describe stops the run (\<open>Stuck\<close>), as does leaving a block without a
  terminator. \<open>OutOfFuel\<close> for every amount of fuel is a run that never returns.
\<close>

datatype outcome = Returned int | OutOfFuel | Stuck

fun value_of :: "int list \<Rightarrow> (nat \<Rightarrow> int) \<Rightarrow> Value \<Rightarrow> int" where
  "value_of args env (ConstantInt w v) = v"
| "value_of args env (Argument k) = (if k < length args then args ! k else 0)"
| "value_of args env (Local r) = env r"

fun exec :: "nat \<Rightarrow> BasicBlock list \<Rightarrow> int list \<Rightarrow> (nat \<Rightarrow> int) \<Rightarrow> nat \<Rightarrow> nat \<Rightarrow> outcome" where
  "exec 0 blocks args env b pc = OutOfFuel"
| "exec (Suc fuel) blocks args env b pc =
     (if b < length blocks \<and> pc < length (blocks ! b) then
        (case blocks ! b ! pc of
           Add r x y \<Rightarrow>
             exec fuel blocks args
               (env(r := take_bit 32 (value_of args env x + value_of args env y))) b (Suc pc)
         | Mul r x y \<Rightarrow>
             exec fuel blocks args
               (env(r := take_bit 32 (value_of args env x * value_of args env y))) b (Suc pc)
         | Ret v \<Rightarrow> Returned (value_of args env v)
         | Br t \<Rightarrow> exec fuel blocks args env t 0
         | CondBr c t f \<Rightarrow>
             exec fuel blocks args env (if value_of args env c \<noteq> 0 then t else f) 0
         | OtherInst \<Rightarrow> Stuck)
      else Stuck)"

definition run_function :: "nat \<Rightarrow> Function \<Rightarrow> int list \<Rightarrow> outcome" where
  "run_function fuel F args = exec fuel (fn_blocks F) args (\<lambda>r. 0) 0 0"

subsection \<open>Vocabulary for the statements\<close>

text \<open>The name a global has after \<^verbatim>\<open>setName\<close>.\<close>

definition name_given :: "Module \<Rightarrow> nat \<Rightarrow> string \<Rightarrow> string" where
  "name_given M i NewName = gv_name (GlobalList (GV_setName M i NewName) ! i)"

text \<open>
  The constant that \<^verbatim>\<open>encryptString\<close> builds from a payload \<open>bs\<close>; what it leaves of a
  global \<open>g\<close> that it encrypts (\<open>g'\<close>: the new initializer, a name that begins with the old
  one and \<^verbatim>\<open>_obf\<close>, the rest as it was); and the global \<open>c\<close> that it adds for \<open>g\<close>.
\<close>

definition encryptedData :: "int \<Rightarrow> 8 word list \<Rightarrow> Constant" where
  "encryptedData key bs = ConstantDataArray_get (encrypted_bytes key (butlast bs))"

definition encrypted_in_place :: "int \<Rightarrow> GlobalVariable \<Rightarrow> GlobalVariable \<Rightarrow> bool" where
  "encrypted_in_place key g g' =
     ((\<exists>bs. gv_initializer g = Some (ConstantDataArray bs) \<and> isCString bs
            \<and> gv_initializer g' = Some (encryptedData key bs))
      \<and> gv_linkage g' = gv_linkage g \<and> gv_isConstant g' = gv_isConstant g
      \<and> prefix (gv_name g @ ''_obf'') (gv_name g'))"

definition encrypted_copy :: "int \<Rightarrow> GlobalVariable \<Rightarrow> GlobalVariable \<Rightarrow> bool" where
  "encrypted_copy key g c =
     ((\<exists>bs. gv_initializer g = Some (ConstantDataArray bs) \<and> isCString bs
            \<and> gv_initializer c = Some (encryptedData key bs))
      \<and> gv_linkage c = PrivateLinkage \<and> gv_isConstant c
      \<and> prefix (gv_name g @ ''_enc'') (gv_name c))"

text \<open>What \<^verbatim>\<open>obfuscateStrings\<close> has done when it has gone through the globals \<open>is\<close>.\<close>

definition found_post :: "int \<Rightarrow> nat list \<Rightarrow> PassState \<Rightarrow> PassState \<Rightarrow> bool" where
  "found_post key is st st' =
    (length (GlobalList (ps_module st')) = length (GlobalList (ps_module st)) + length is
     \<and> FunctionList (ps_module st') = FunctionList (ps_module st)
     \<and> strings_obf_count st' = strings_obf_count st + of_nat (length is)
     \<and> fake_funcs_inserted st' = fake_funcs_inserted st
     \<and> cycles_completed st' = cycles_completed st
     \<and> rand_calls st' = rand_calls st
     \<and> (\<forall>j. j < length (GlobalList (ps_module st)) \<longrightarrow> j \<notin> set is \<longrightarrow>
           GlobalList (ps_module st') ! j = GlobalList (ps_module st) ! j)
     \<and> (\<forall>j. j \<in> set is \<longrightarrow>
           encrypted_in_place key (GlobalList (ps_module st) ! j) (GlobalList (ps_module st') ! j))
     \<and> (\<forall>k. k < length is \<longrightarrow>
           encrypted_copy key (GlobalList (ps_module st) ! (is ! k))
             (GlobalList (ps_module st') ! (length (GlobalList (ps_module st)) + k))))"

text \<open>
  \<open>M'\<close> has the functions of \<open>M\<close>, under their names and in their order, followed by \<open>k\<close>
  more, whose names are pairwise distinct and are not names of functions of \<open>M\<close>.
\<close>

definition adds_functions :: "Module \<Rightarrow> Module \<Rightarrow> nat \<Rightarrow> bool" where
  "adds_functions M M' k =
     (\<exists>news. length news = k
        \<and> map fn_name (FunctionList M') = map fn_name (FunctionList M) @ news
        \<and> distinct news
        \<and> set news \<inter> set (map fn_name (FunctionList M)) = {})"

definition bogus_post :: "nat \<Rightarrow> PassState \<Rightarrow> PassState \<Rightarrow> bool" where
  "bogus_post k st st' =
     (adds_functions (ps_module st) (ps_module st') k
      \<and> GlobalList (ps_module st') = GlobalList (ps_module st)
      \<and> fake_funcs_inserted st' = fake_funcs_inserted st + of_nat k
      \<and> rand_calls st' = rand_calls st + k
      \<and> strings_obf_count st' = strings_obf_count st
      \<and> cycles_completed st' = cycles_completed st)"

text \<open>
  What \<^verbatim>\<open>renamePrivateGlobals\<close> has done when it has renamed the globals \<open>is\<close>, and the
  globals of a module with \<^verbatim>\<open>_obf\<close> appended to the names of those at the positions \<open>is\<close>.
\<close>

definition rename_post :: "nat list \<Rightarrow> Module \<Rightarrow> Module \<Rightarrow> bool" where
  "rename_post is M M' =
     (length (GlobalList M') = length (GlobalList M)
      \<and> FunctionList M' = FunctionList M
      \<and> (\<forall>j. j < length (GlobalList M) \<longrightarrow> j \<notin> set is \<longrightarrow>
            GlobalList M' ! j = GlobalList M ! j)
      \<and> (\<forall>j. j \<in> set is \<longrightarrow>
            GlobalList M' ! j = (GlobalList M ! j)\<lparr>gv_name := gv_name (GlobalList M' ! j)\<rparr>
            \<and> prefix (gv_name (GlobalList M ! j) @ ''_obf'') (gv_name (GlobalList M' ! j))))"

definition suffixed :: "nat list \<Rightarrow> GlobalVariable list \<Rightarrow> GlobalVariable list" where
  "suffixed is G =
     map (\<lambda>j. if j \<in> set is then (G ! j)\<lparr>gv_name := gv_name (G ! j) @ ''_obf''\<rparr> else G ! j)
       [0..<length G]"

text \<open>What one cycle that completes has done.\<close>

definition cycle_post :: "int \<Rightarrow> nat \<Rightarrow> PassState \<Rightarrow> PassState \<Rightarrow> bool" where
  "cycle_post key B st st' =
    (adds_functions (ps_module st) (ps_module st') B
     \<and> fake_funcs_inserted st' = fake_funcs_inserted st + of_nat B
     \<and> rand_calls st' = rand_calls st + B
     \<and> strings_obf_count st'
         = strings_obf_count st + of_nat (length (stringGlobals (ps_module st)))
     \<and> cycles_completed st' = cycles_completed st + 1
     \<and> length (GlobalList (ps_module st'))
         = length (GlobalList (ps_module st)) + length (stringGlobals (ps_module st))
     \<and> (\<forall>j. j < length (GlobalList (ps_module st)) \<longrightarrow>
           j \<notin> set (stringGlobals (ps_module st)) \<longrightarrow>
           j \<notin> set (toRename (ps_module st)) \<longrightarrow>
           GlobalList (ps_module st') ! j = GlobalList (ps_module st) ! j)
     \<and> (\<forall>j. j < length (GlobalList (ps_module st)) \<longrightarrow>
           j \<notin> set (stringGlobals (ps_module st)) \<longrightarrow>
           GlobalList (ps_module st') ! j
             = (GlobalList (ps_module st) ! j)\<lparr>gv_name := gv_name (GlobalList (ps_module st') ! j)\<rparr>)
     \<and> (\<forall>j. j \<in> set (stringGlobals (ps_module st)) \<longrightarrow>
           encrypted_in_place key (GlobalList (ps_module st) ! j) (GlobalList (ps_module st') ! j)))"

text \<open>
  The names that \<^verbatim>\<open>obfuscateStrings\<close> asks for when it goes through the globals \<open>is\<close> of
  \<open>M\<close>: for each of them, its name followed by \<^verbatim>\<open>_enc\<close> (for the copy) and its name
  followed by \<^verbatim>\<open>_obf\<close> (for the global itself).
\<close>

definition new_names :: "nat list \<Rightarrow> Module \<Rightarrow> string list" where
  "new_names is M =
     concat (map (\<lambda>i. [gv_name (GlobalList M ! i) @ ''_enc'',
                        gv_name (GlobalList M ! i) @ ''_obf'']) is)"

text \<open>
  Every string constant that \<^verbatim>\<open>obfuscateStrings\<close> finds in \<open>M\<close> is a C string (its last
  byte is zero and no other byte is), none of whose characters is the low byte of the key.
\<close>

definition key_free_strings :: "int \<Rightarrow> Module \<Rightarrow> bool" where
  "key_free_strings key M =
     (\<forall>j\<in>set (stringGlobals M). \<forall>bs.
        gv_initializer (GlobalList M ! j) = Some (ConstantDataArray bs)
        \<longrightarrow> isCString bs \<and> word_of_int key \<notin> set (butlast bs))"

text \<open>
  The name that \<^verbatim>\<open>insertBogusFunctions\<close> asks for in iteration \<open>i\<close>, when \<^verbatim>\<open>rand()\<close> has
  been called \<open>calls\<close> times before:
  \<^verbatim>\<open>"bogus_func_" + std::to_string(i) + "_" + std::to_string(rand() % 10000)\<close>.
\<close>

definition bogus_name :: "(nat \<Rightarrow> nat) \<Rightarrow> nat \<Rightarrow> nat \<Rightarrow> string" where
  "bogus_name rnd i calls = ''bogus_func_'' @ to_string i @ ''_'' @ to_string (rnd calls mod 10000)"

subsection \<open>Example modules\<close>

text \<open>
  Concrete modules on which the statements below are tried: a module with one private
  string constant \<^verbatim>\<open>"ABC"\<close> and one external one, before and after one cycle with the key
  \<^verbatim>\<open>0xAA\<close>; modules with the functions that \<^verbatim>\<open>insertBogusFunctions\<close> creates when
  \<^verbatim>\<open>rand()\<close> returns 7 twice; two private globals of which one has the name the other
  is renamed to; a module with a function \<^verbatim>\<open>main\<close> that returns 0; and a module with the
  string constant \<^verbatim>\<open>"A"\<close>, before and after one cycle with the key \<^verbatim>\<open>0x41\<close>.
\<close>

definition string_constant :: "string \<Rightarrow> LinkageTypes \<Rightarrow> Constant \<Rightarrow> GlobalVariable" where
  "string_constant n l c =
     \<lparr>gv_name = n, gv_linkage = l, gv_isConstant = True, gv_initializer = Some c\<rparr>"

definition demo_module :: Module where
  "demo_module =
     \<lparr>GlobalList =
        [string_constant ''.str'' PrivateLinkage (ConstantDataArray [0x41, 0x42, 0x43, 0x00]),
         string_constant ''banner'' ExternalLinkage (ConstantDataArray [0x48, 0x69, 0x00])],
      FunctionList = [], LastUnique = 0\<rparr>"

definition demo_encrypted :: Module where
  "demo_encrypted =
     \<lparr>GlobalList =
        [string_constant ''.str_obf'' PrivateLinkage (ConstantDataArray [0xEB, 0xE8, 0xE9, 0x00]),
         string_constant ''banner'' ExternalLinkage (ConstantDataArray [0x48, 0x69, 0x00]),
         string_constant ''.str_enc'' PrivateLinkage (ConstantDataArray [0xEB, 0xE8, 0xE9, 0x00])],
      FunctionList = [], LastUnique = 0\<rparr>"

definition bogus_function :: "string \<Rightarrow> nat \<Rightarrow> Function" where
  "bogus_function n i = \<lparr>fn_name = n, fn_linkage = PrivateLinkage, fn_blocks = [bogus_entry i]\<rparr>"

definition rand_sevens :: "nat \<Rightarrow> nat" where
  "rand_sevens k = 7"

definition empty_module :: Module where
  "empty_module = \<lparr>GlobalList = [], FunctionList = [], LastUnique = 0\<rparr>"

definition one_bogus :: Module where
  "one_bogus =
     \<lparr>GlobalList = [], FunctionList = [bogus_function ''bogus_func_0_7'' 0], LastUnique = 0\<rparr>"

definition two_bogus :: Module where
  "two_bogus =
     \<lparr>GlobalList = [],
      FunctionList = [bogus_function ''bogus_func_0_7'' 0, bogus_function ''bogus_func_0_7.1'' 0],
      LastUnique = 1\<rparr>"

definition clash_module :: Module where
  "clash_module =
     \<lparr>GlobalList =
        [\<lparr>gv_name = ''x'', gv_linkage = PrivateLinkage, gv_isConstant = False,
          gv_initializer = None\<rparr>,
         \<lparr>gv_name = ''x_obf'', gv_linkage = PrivateLinkage, gv_isConstant = False,
          gv_initializer = None\<rparr>],
      FunctionList = [], LastUnique = 0\<rparr>"

definition main_function :: Function where
  "main_function =
     \<lparr>fn_name = ''main'', fn_linkage = ExternalLinkage,
      fn_blocks = [[Ret (ConstantInt 32 0)]]\<rparr>"

definition main_module :: Module where
  "main_module = \<lparr>GlobalList = [], FunctionList = [main_function], LastUnique = 0\<rparr>"

definition a_module :: Module where
  "a_module =
     \<lparr>GlobalList = [string_constant ''.str'' PrivateLinkage (ConstantDataArray [0x41, 0x00])],
      FunctionList = [], LastUnique = 0\<rparr>"

definition a_encrypted :: Module where
  "a_encrypted =
     \<lparr>GlobalList = [string_constant ''.str_obf'' PrivateLinkage (ConstantAggregateZero 2),
                     string_constant ''.str_enc'' PrivateLinkage (ConstantAggregateZero 2)],
      FunctionList = [], LastUnique = 0\<rparr>"

text \<open>
  A declaration of an external global; a module whose only global is the empty string,
  which LLVM stores as a zero initializer; a module with a string and a constant array
  that is not null-terminated; a module in which the names \<^verbatim>\<open>.str_enc\<close> and \<^verbatim>\<open>.str_obf\<close>
  are taken, and what \<^verbatim>\<open>obfuscateStrings\<close> makes of it, given the encrypted initializer;
  the string \<^verbatim>\<open>"AB"\<close>, and what a cycle with the key \<^verbatim>\<open>0x41\<close> makes of it.
\<close>

definition external_declaration :: "string \<Rightarrow> GlobalVariable" where
  "external_declaration n =
     \<lparr>gv_name = n, gv_linkage = ExternalLinkage, gv_isConstant = False, gv_initializer = None\<rparr>"

definition empty_string_module :: Module where
  "empty_string_module =
     \<lparr>GlobalList = [string_constant ''empty'' InternalLinkage (ConstantAggregateZero 1)],
      FunctionList = [], LastUnique = 0\<rparr>"

definition raw_module :: Module where
  "raw_module =
     \<lparr>GlobalList =
        [string_constant ''.str'' PrivateLinkage (ConstantDataArray [0x41, 0x42, 0x43, 0x00]),
         string_constant ''raw'' PrivateLinkage (ConstantDataArray [0x41, 0x42])],
      FunctionList = [], LastUnique = 0\<rparr>"

definition taken_module :: Module where
  "taken_module =
     \<lparr>GlobalList =
        [string_constant ''.str'' PrivateLinkage (ConstantDataArray [0x41, 0x42, 0x43, 0x00]),
         external_declaration ''.str_enc'', external_declaration ''.str_obf''],
      FunctionList = [], LastUnique = 0\<rparr>"

definition taken_encrypted :: "Constant \<Rightarrow> Module" where
  "taken_encrypted d =
     \<lparr>GlobalList =
        [string_constant ''.str_obf.2'' PrivateLinkage d,
         external_declaration ''.str_enc'', external_declaration ''.str_obf'',
         string_constant ''.str_enc.1'' PrivateLinkage d],
      FunctionList = [], LastUnique = 2\<rparr>"

definition ab_module :: Module where
  "ab_module =
     \<lparr>GlobalList = [string_constant ''.str'' PrivateLinkage (ConstantDataArray [0x41, 0x42, 0x00])],
      FunctionList = [], LastUnique = 0\<rparr>"

definition ab_encrypted :: Module where
  "ab_encrypted =
     \<lparr>GlobalList = [string_constant ''.str_obf'' PrivateLinkage (ConstantDataArray [0x00, 0x03, 0x00]),
                     string_constant ''.str_enc'' PrivateLinkage (ConstantDataArray [0x00, 0x03, 0x00])],
      FunctionList = [], LastUnique = 0\<rparr>"

subsection \<open>Lemmas\<close>

lemma low_byte_of_key: "(word_of_int (k AND 0xFF) :: 8 word) = word_of_int k"
proof -
  have "(0xFF::int) = mask 8" by (simp add: mask_eq_exp_minus_1)
  then have "k AND 0xFF = take_bit 8 k" by (simp add: take_bit_eq_mask)
  then show ?thesis by (simp add: word_eq_iff_signed word_of_int_eq_iff)
qed

lemma xor_byte_eq: "xor_byte k c = c XOR word_of_int k"
proof -
  have "(word_of_int (sint c XOR (k AND 0xFF)) :: 8 word)
      = word_of_int (sint c) XOR word_of_int (k AND 0xFF)"
    by (simp add: of_int_xor_eq)
  then show ?thesis
    by (simp add: xor_byte_def low_byte_of_key)
qed

lemma xor_byte_twice: "xor_byte k (xor_byte k c) = c"
  by (simp add: xor_byte_eq xor.assoc)

lemma makeUniqueName_fresh: "fst (makeUniqueName used Name l) \<notin> set used"
proof (induction used Name l rule: makeUniqueName.induct)
  case (1 used Name lastUnique)
  then show ?case
    by (subst makeUniqueName.simps) simp
qed

lemma makeUniqueName_prefix: "prefix Name (fst (makeUniqueName used Name l))"
proof (induction used Name l rule: makeUniqueName.induct)
  case (1 used Name lastUnique)
  then show ?case
    by (subst makeUniqueName.simps) (simp add: unique_candidate_def)
qed

lemma createValueName_fresh: "fst (createValueName used Name l) \<notin> set used"
  by (simp add: createValueName_def makeUniqueName_fresh)

lemma createValueName_prefix: "prefix Name (fst (createValueName used Name l))"
  by (simp add: createValueName_def makeUniqueName_prefix)

lemma createValueName_free: "Name \<notin> set used \<Longrightarrow> createValueName used Name l = (Name, l)"
  by (simp add: createValueName_def)

lemma new_GlobalVariable_globals:
  "GlobalList (new_GlobalVariable M c l v Name) =
     GlobalList M @ [\<lparr>gv_name = fst (createValueName (symbol_names M) Name (LastUnique M)),
                     gv_linkage = l, gv_isConstant = c, gv_initializer = Some v\<rparr>]"
  by (simp add: new_GlobalVariable_def split_beta)

lemma new_GlobalVariable_functions:
  "FunctionList (new_GlobalVariable M c l v Name) = FunctionList M"
  by (simp add: new_GlobalVariable_def split_beta)

lemma GV_setInitializer_globals:
  "GlobalList (GV_setInitializer M i v) =
     (GlobalList M)[i := (GlobalList M ! i)\<lparr>gv_initializer := Some v\<rparr>]"
  by (simp add: GV_setInitializer_def)

lemma GV_setInitializer_functions: "FunctionList (GV_setInitializer M i v) = FunctionList M"
  by (simp add: GV_setInitializer_def)

lemma GV_setName_globals:
  "i < length (GlobalList M) \<Longrightarrow>
   GlobalList (GV_setName M i NewName) =
     (GlobalList M)[i := (GlobalList M ! i)\<lparr>gv_name := name_given M i NewName\<rparr>]"
  by (simp add: name_given_def GV_setName_def Let_def split_beta)

lemma GV_setName_functions: "FunctionList (GV_setName M i NewName) = FunctionList M"
  by (simp add: GV_setName_def Let_def split_beta)

lemma name_given_prefix:
  "i < length (GlobalList M) \<Longrightarrow> prefix NewName (name_given M i NewName)"
  by (simp add: name_given_def GV_setName_def Let_def split_beta createValueName_prefix)

lemma Function_Create_functions:
  "FunctionList (Function_Create M l Name bs) =
     FunctionList M @ [\<lparr>fn_name = fst (createValueName (symbol_names M) Name (LastUnique M)),
                       fn_linkage = l, fn_blocks = bs\<rparr>]"
  by (simp add: Function_Create_def split_beta)

lemma Function_Create_globals: "GlobalList (Function_Create M l Name bs) = GlobalList M"
  by (simp add: Function_Create_def split_beta)

lemma encryptString_Inr:
  assumes "i < length (GlobalList M)"
    and "gv_initializer (GlobalList M ! i) = Some (ConstantDataArray bs)" "isCString bs"
  shows "encryptString key M i =
    Inr (GV_setName
          (GV_setInitializer
            (new_GlobalVariable M True PrivateLinkage (encryptedData key bs)
               (gv_name (GlobalList M ! i) @ ''_enc''))
            i (encryptedData key bs))
          i (gv_name (GlobalList M ! i) @ ''_obf''))"
  using assms
  by (simp add: encryptString_def getAsCString_def encryptedData_def Let_def
      GV_setInitializer_globals new_GlobalVariable_globals nth_append)

lemma encryptString_InrD:
  assumes "encryptString key M i = Inr M'"
  shows "\<exists>bs. gv_initializer (GlobalList M ! i) = Some (ConstantDataArray bs) \<and> isCString bs"
  using assms
  by (auto simp: encryptString_def getAsCString_def split: option.splits Constant.splits if_splits)

lemma encryptString_frame:
  assumes ok: "encryptString key M i = Inr M'" and i: "i < length (GlobalList M)"
  shows "length (GlobalList M') = Suc (length (GlobalList M))"
    and "FunctionList M' = FunctionList M"
    and "\<And>j. j < length (GlobalList M) \<Longrightarrow> j \<noteq> i \<Longrightarrow> GlobalList M' ! j = GlobalList M ! j"
    and "encrypted_in_place key (GlobalList M ! i) (GlobalList M' ! i)"
    and "encrypted_copy key (GlobalList M ! i) (GlobalList M' ! length (GlobalList M))"
proof -
  from encryptString_InrD [OF ok] obtain bs
    where bs: "gv_initializer (GlobalList M ! i) = Some (ConstantDataArray bs)" "isCString bs"
    by blast
  define M1 where "M1 = new_GlobalVariable M True PrivateLinkage (encryptedData key bs)
               (gv_name (GlobalList M ! i) @ ''_enc'')"
  define M2 where "M2 = GV_setInitializer M1 i (encryptedData key bs)"
  have M': "M' = GV_setName M2 i (gv_name (GlobalList M ! i) @ ''_obf'')"
    using ok encryptString_Inr [OF i bs, of key] by (simp add: M1_def M2_def)
  have len1: "length (GlobalList M1) = Suc (length (GlobalList M))"
    by (simp add: M1_def new_GlobalVariable_globals)
  have len2: "length (GlobalList M2) = Suc (length (GlobalList M))"
    by (simp add: M2_def GV_setInitializer_globals len1)
  have i2: "i < length (GlobalList M2)" using i len2 by simp
  have G': "GlobalList M' = (GlobalList M2)[i := (GlobalList M2 ! i)
               \<lparr>gv_name := name_given M2 i (gv_name (GlobalList M ! i) @ ''_obf'')\<rparr>]"
    unfolding M' by (rule GV_setName_globals [OF i2])
  show "length (GlobalList M') = Suc (length (GlobalList M))"
    by (simp add: G' len2)
  show "FunctionList M' = FunctionList M"
    by (simp add: M' M2_def M1_def GV_setName_functions GV_setInitializer_functions
        new_GlobalVariable_functions)
  show "GlobalList M' ! j = GlobalList M ! j" if "j < length (GlobalList M)" "j \<noteq> i" for j
    using that
    by (simp add: G' M2_def M1_def GV_setInitializer_globals new_GlobalVariable_globals nth_append)
  have at_i: "GlobalList M2 ! i = (GlobalList M ! i)\<lparr>gv_initializer := Some (encryptedData key bs)\<rparr>"
    using i by (simp add: M2_def M1_def GV_setInitializer_globals new_GlobalVariable_globals
        nth_append)
  show "encrypted_in_place key (GlobalList M ! i) (GlobalList M' ! i)"
    using i2 bs name_given_prefix [OF i2, of "gv_name (GlobalList M ! i) @ ''_obf''"]
    by (simp add: encrypted_in_place_def G' at_i)
  have at_new: "GlobalList M2 ! length (GlobalList M) =
      \<lparr>gv_name = fst (createValueName (symbol_names M) (gv_name (GlobalList M ! i) @ ''_enc'')
                        (LastUnique M)),
       gv_linkage = PrivateLinkage, gv_isConstant = True,
       gv_initializer = Some (encryptedData key bs)\<rparr>"
    using i by (simp add: M2_def M1_def GV_setInitializer_globals new_GlobalVariable_globals)
  show "encrypted_copy key (GlobalList M ! i) (GlobalList M' ! length (GlobalList M))"
    using i bs by (simp add: encrypted_copy_def G' at_new createValueName_prefix)
qed

lemma encrypt_found_post:
  assumes "encrypt_found key is st = Inr st'"
    and "distinct is" and "\<forall>i\<in>set is. i < length (GlobalList (ps_module st))"
  shows "found_post key is st st'"
  using assms
proof (induction "is" arbitrary: st)
  case Nil
  then show ?case by (simp add: found_post_def)
next
  case (Cons i rest)
  let ?G = "GlobalList (ps_module st)"
  from Cons.prems(1) obtain M1 where M1: "encryptString key (ps_module st) i = Inr M1"
    and rest: "encrypt_found key rest
        (st\<lparr>ps_module := M1, strings_obf_count := strings_obf_count st + 1\<rparr>) = Inr st'"
    by (auto split: sum.splits)
  define st1 where "st1 = st\<lparr>ps_module := M1, strings_obf_count := strings_obf_count st + 1\<rparr>"
  have i: "i < length ?G" using Cons.prems(3) by simp
  note fr = encryptString_frame [OF M1 i]
  have m1: "ps_module st1 = M1" by (simp add: st1_def)
  have bound1: "\<forall>j\<in>set rest. j < length (GlobalList (ps_module st1))"
    using Cons.prems(3) fr(1) by (auto simp: m1 less_Suc_eq)
  have "found_post key rest st1 st'"
    using Cons.IH [of st1] rest Cons.prems(2) bound1 by (simp add: st1_def)
  then have
    ih1: "length (GlobalList (ps_module st')) = Suc (length ?G) + length rest"
    and ih2: "FunctionList (ps_module st') = FunctionList M1"
    and ih3: "strings_obf_count st' = strings_obf_count st + 1 + of_nat (length rest)"
    and ih4: "fake_funcs_inserted st' = fake_funcs_inserted st"
    and ih5: "cycles_completed st' = cycles_completed st"
    and ih6: "rand_calls st' = rand_calls st"
    and ih7: "\<And>j. j < Suc (length ?G) \<Longrightarrow> j \<notin> set rest \<Longrightarrow>
           GlobalList (ps_module st') ! j = GlobalList M1 ! j"
    and ih8: "\<And>j. j \<in> set rest \<Longrightarrow>
           encrypted_in_place key (GlobalList M1 ! j) (GlobalList (ps_module st') ! j)"
    and ih9: "\<And>k. k < length rest \<Longrightarrow>
           encrypted_copy key (GlobalList M1 ! (rest ! k))
             (GlobalList (ps_module st') ! (Suc (length ?G) + k))"
    by (simp_all add: found_post_def m1 fr(1)) (simp_all add: st1_def)
  have inot: "i \<notin> set rest" using Cons.prems(2) by simp
  have restlt: "\<And>j. j \<in> set rest \<Longrightarrow> j < length ?G" using Cons.prems(3) by simp
  have c7: "GlobalList (ps_module st') ! j = ?G ! j"
    if "j < length ?G" "j \<notin> set (i # rest)" for j
    using that ih7 [of j] fr(3) [of j] by simp
  have c8: "encrypted_in_place key (?G ! j) (GlobalList (ps_module st') ! j)"
    if "j \<in> set (i # rest)" for j
  proof (cases "j = i")
    case True
    then show ?thesis using ih7 [of i] inot i fr(4) by simp
  next
    case False
    with that have "j \<in> set rest" by simp
    then show ?thesis using ih8 [of j] fr(3) [of j] restlt [of j] False by simp
  qed
  have c9: "encrypted_copy key (?G ! ((i # rest) ! k))
             (GlobalList (ps_module st') ! (length ?G + k))"
    if "k < length (i # rest)" for k
  proof (cases k)
    case 0
    have "length ?G \<notin> set rest" using restlt by auto
    then show ?thesis using 0 ih7 [of "length ?G"] fr(5) by simp
  next
    case (Suc k')
    then have k': "k' < length rest" using that by simp
    then have mem: "rest ! k' \<in> set rest" by simp
    then have "rest ! k' \<noteq> i" using inot by auto
    then show ?thesis
      using Suc ih9 [OF k'] fr(3) [of "rest ! k'"] restlt [OF mem] by simp
  qed
  show ?case
    unfolding found_post_def
    using ih1 ih2 ih3 ih4 ih5 ih6 c7 c8 c9 fr(2) by simp
qed

lemma stringGlobals_set:
  "set (stringGlobals M) = {i. i < length (GlobalList M) \<and> is_string_global (GlobalList M ! i)}"
  by (auto simp: stringGlobals_def)

lemma stringGlobals_distinct: "distinct (stringGlobals M)"
  by (simp add: stringGlobals_def)

lemma is_string_globalD:
  assumes "is_string_global g"
  shows "\<exists>bs. gv_initializer g = Some (ConstantDataArray bs)"
    and "gv_isConstant g" and "gv_linkage g \<noteq> ExternalLinkage"
  using assms
  by (auto simp: is_string_global_def split: if_splits option.splits Constant.splits)

lemma is_string_globalI:
  "gv_initializer g = Some (ConstantDataArray bs) \<Longrightarrow> gv_isConstant g \<Longrightarrow>
   gv_linkage g \<noteq> ExternalLinkage \<Longrightarrow> is_string_global g"
  by (simp add: is_string_global_def)

lemma is_string_global_name: "is_string_global (g\<lparr>gv_name := n\<rparr>) = is_string_global g"
  by (simp add: is_string_global_def)

lemma encrypt_found_total:
  assumes "distinct is"
    and "\<forall>i\<in>set is. i < length (GlobalList (ps_module st))
          \<and> (\<exists>bs. gv_initializer (GlobalList (ps_module st) ! i) = Some (ConstantDataArray bs)
                   \<and> isCString bs)"
  shows "\<exists>st'. encrypt_found key is st = Inr st'"
  using assms
proof (induction "is" arbitrary: st)
  case Nil
  then show ?case by simp
next
  case (Cons i rest)
  from Cons.prems(2) obtain bs where i: "i < length (GlobalList (ps_module st))"
    and bs: "gv_initializer (GlobalList (ps_module st) ! i) = Some (ConstantDataArray bs)"
      "isCString bs"
    by auto
  from encryptString_Inr [OF i bs, of key] obtain M1
    where M1: "encryptString key (ps_module st) i = Inr M1" by simp
  note fr = encryptString_frame [OF M1 i]
  define st1 where "st1 = st\<lparr>ps_module := M1, strings_obf_count := strings_obf_count st + 1\<rparr>"
  have "\<forall>j\<in>set rest. j < length (GlobalList (ps_module st1))
          \<and> (\<exists>bs. gv_initializer (GlobalList (ps_module st1) ! j) = Some (ConstantDataArray bs)
                   \<and> isCString bs)"
  proof
    fix j assume j: "j \<in> set rest"
    then have "j \<noteq> i" using Cons.prems(1) by auto
    moreover have "j < length (GlobalList (ps_module st))" using Cons.prems(2) j by simp
    ultimately show "j < length (GlobalList (ps_module st1))
          \<and> (\<exists>bs. gv_initializer (GlobalList (ps_module st1) ! j) = Some (ConstantDataArray bs)
                   \<and> isCString bs)"
      using fr(1) fr(3) [of j] Cons.prems(2) j by (auto simp: st1_def)
  qed
  with Cons.IH [of st1] Cons.prems(1) obtain st' where "encrypt_found key rest st1 = Inr st'"
    by auto
  then show ?case using M1 by (simp add: st1_def)
qed

text \<open>What obfuscateStrings guarantees when it returns.\<close>

lemma obfuscateStrings_post:
  assumes "obfuscateStrings key st = Inr (c, st')"
  shows "found_post key (stringGlobals (ps_module st)) st st'"
    and "c = (stringGlobals (ps_module st) \<noteq> [])"
proof -
  from assms have ef: "encrypt_found key (stringGlobals (ps_module st)) st = Inr st'"
    and c: "c = (stringGlobals (ps_module st) \<noteq> [])"
    by (auto simp: obfuscateStrings_def split: sum.splits)
  show "found_post key (stringGlobals (ps_module st)) st st'"
    by (rule encrypt_found_post [OF ef stringGlobals_distinct]) (simp add: stringGlobals_set)
  show "c = (stringGlobals (ps_module st) \<noteq> [])" by (rule c)
qed

lemma obfuscateStrings_total:
  assumes "\<forall>i\<in>set (stringGlobals (ps_module st)). \<forall>bs.
             gv_initializer (GlobalList (ps_module st) ! i) = Some (ConstantDataArray bs)
             \<longrightarrow> isCString bs"
  shows "\<exists>st'. obfuscateStrings key st = Inr (stringGlobals (ps_module st) \<noteq> [], st')"
proof -
  have "\<forall>i\<in>set (stringGlobals (ps_module st)). i < length (GlobalList (ps_module st))
          \<and> (\<exists>bs. gv_initializer (GlobalList (ps_module st) ! i) = Some (ConstantDataArray bs)
                   \<and> isCString bs)"
  proof
    fix i assume i: "i \<in> set (stringGlobals (ps_module st))"
    then have lt: "i < length (GlobalList (ps_module st))"
      and sg: "is_string_global (GlobalList (ps_module st) ! i)"
      by (simp_all add: stringGlobals_set)
    from is_string_globalD(1) [OF sg] obtain bs
      where "gv_initializer (GlobalList (ps_module st) ! i) = Some (ConstantDataArray bs)" ..
    with assms i lt show "i < length (GlobalList (ps_module st))
          \<and> (\<exists>bs. gv_initializer (GlobalList (ps_module st) ! i) = Some (ConstantDataArray bs)
                   \<and> isCString bs)" by auto
  qed
  from encrypt_found_total [OF stringGlobals_distinct this, of key]
  show ?thesis by (auto simp: obfuscateStrings_def)
qed

lemma adds_functions_same:
  "map fn_name (FunctionList M') = map fn_name (FunctionList M) \<Longrightarrow> adds_functions M M' 0"
  by (simp add: adds_functions_def)

lemma adds_functions_trans:
  assumes "adds_functions M M' k" "adds_functions M' M'' l"
  shows "adds_functions M M'' (k + l)"
proof -
  from assms(1) obtain n1 where n1: "length n1 = k"
    "map fn_name (FunctionList M') = map fn_name (FunctionList M) @ n1"
    "distinct n1" "set n1 \<inter> set (map fn_name (FunctionList M)) = {}"
    unfolding adds_functions_def by blast
  from assms(2) obtain n2 where n2: "length n2 = l"
    "map fn_name (FunctionList M'') = map fn_name (FunctionList M') @ n2"
    "distinct n2" "set n2 \<inter> set (map fn_name (FunctionList M')) = {}"
    unfolding adds_functions_def by blast
  have "length (n1 @ n2) = k + l" using n1(1) n2(1) by simp
  moreover have "map fn_name (FunctionList M'') = map fn_name (FunctionList M) @ (n1 @ n2)"
    using n1(2) n2(2) by simp
  moreover have "distinct (n1 @ n2)"
    using n1(3) n2(3) n2(4) unfolding n1(2) by auto
  moreover have "set (n1 @ n2) \<inter> set (map fn_name (FunctionList M)) = {}"
    using n1(4) n2(4) unfolding n1(2) by auto
  ultimately show ?thesis
    unfolding adds_functions_def by blast
qed

lemma Function_Create_adds: "adds_functions M (Function_Create M l Name bs) 1"
proof -
  let ?n = "fst (createValueName (symbol_names M) Name (LastUnique M))"
  have "?n \<notin> set (symbol_names M)" by (rule createValueName_fresh)
  then have "?n \<notin> set (map fn_name (FunctionList M))"
    by (simp add: symbol_names_def)
  then have "length [?n] = 1
      \<and> map fn_name (FunctionList (Function_Create M l Name bs))
          = map fn_name (FunctionList M) @ [?n]
      \<and> distinct [?n] \<and> set [?n] \<inter> set (map fn_name (FunctionList M)) = {}"
    by (simp add: Function_Create_functions)
  then show ?thesis
    unfolding adds_functions_def by blast
qed

lemma insert_bogus_post: "bogus_post 1 st (insert_bogus rnd i st)"
  using Function_Create_adds [of "ps_module st" PrivateLinkage]
  by (simp add: bogus_post_def insert_bogus_def Let_def Function_Create_globals)

lemma bogus_post_trans:
  "bogus_post k st st' \<Longrightarrow> bogus_post l st' st'' \<Longrightarrow> bogus_post (k + l) st st''"
  using adds_functions_trans [of "ps_module st" "ps_module st'" k "ps_module st''" l]
  by (simp add: bogus_post_def add.assoc)

lemma fold_insert_bogus_post: "bogus_post (length is) st (fold (insert_bogus rnd) is st)"
proof (induction "is" arbitrary: st)
  case Nil
  then show ?case by (simp add: bogus_post_def adds_functions_same)
next
  case (Cons i rest)
  have "bogus_post (1 + length rest) st (fold (insert_bogus rnd) rest (insert_bogus rnd i st))"
    by (rule bogus_post_trans [OF insert_bogus_post Cons.IH])
  then show ?case by simp
qed

lemma insertBogusFunctions_post:
  "bogus_post (nat B) st (snd (insertBogusFunctions rnd B st))"
  using fold_insert_bogus_post [of "[0..<nat B]" st rnd]
  by (simp add: insertBogusFunctions_def)

lemma insertBogusFunctions_changed: "fst (insertBogusFunctions rnd B st) = (0 < B)"
  by (simp add: insertBogusFunctions_def)

lemma rename_global_frame:
  assumes i: "i < length (GlobalList M)"
  shows "length (GlobalList (rename_global i M)) = length (GlobalList M)"
    and "FunctionList (rename_global i M) = FunctionList M"
    and "\<And>j. j \<noteq> i \<Longrightarrow> GlobalList (rename_global i M) ! j = GlobalList M ! j"
    and "GlobalList (rename_global i M) ! i
          = (GlobalList M ! i)\<lparr>gv_name := gv_name (GlobalList (rename_global i M) ! i)\<rparr>"
    and "prefix (gv_name (GlobalList M ! i) @ ''_obf'')
           (gv_name (GlobalList (rename_global i M) ! i))"
  using i name_given_prefix [OF i, of "gv_name (GlobalList M ! i) @ ''_obf''"]
  by (simp_all add: rename_global_def GV_setName_globals GV_setName_functions)

lemma fold_rename_post:
  assumes "distinct is" "\<forall>i\<in>set is. i < length (GlobalList M)"
  shows "rename_post is M (fold rename_global is M)"
  using assms
proof (induction "is" arbitrary: M)
  case Nil
  then show ?case by (simp add: rename_post_def)
next
  case (Cons i rest)
  let ?M1 = "rename_global i M"
  have i: "i < length (GlobalList M)" using Cons.prems(2) by simp
  note fr = rename_global_frame [OF i]
  have inot: "i \<notin> set rest" using Cons.prems(1) by simp
  have "\<forall>j\<in>set rest. j < length (GlobalList ?M1)"
    using Cons.prems(2) fr(1) by simp
  with Cons.IH [of ?M1] Cons.prems(1) have "rename_post rest ?M1 (fold rename_global rest ?M1)"
    by simp
  then have ih1: "length (GlobalList (fold rename_global rest ?M1)) = length (GlobalList M)"
    and ih2: "FunctionList (fold rename_global rest ?M1) = FunctionList M"
    and ih3: "\<And>j. j < length (GlobalList M) \<Longrightarrow> j \<notin> set rest \<Longrightarrow>
            GlobalList (fold rename_global rest ?M1) ! j = GlobalList ?M1 ! j"
    and ih4: "\<And>j. j \<in> set rest \<Longrightarrow>
            GlobalList (fold rename_global rest ?M1) ! j
              = (GlobalList ?M1 ! j)\<lparr>gv_name := gv_name (GlobalList (fold rename_global rest ?M1) ! j)\<rparr>
            \<and> prefix (gv_name (GlobalList ?M1 ! j) @ ''_obf'')
                 (gv_name (GlobalList (fold rename_global rest ?M1) ! j))"
    by (simp_all add: rename_post_def fr(1) fr(2))
  have c3: "GlobalList (fold rename_global rest ?M1) ! j = GlobalList M ! j"
    if "j < length (GlobalList M)" "j \<notin> set (i # rest)" for j
    using that ih3 [of j] fr(3) [of j] by simp
  have c4: "GlobalList (fold rename_global rest ?M1) ! j
              = (GlobalList M ! j)\<lparr>gv_name := gv_name (GlobalList (fold rename_global rest ?M1) ! j)\<rparr>
            \<and> prefix (gv_name (GlobalList M ! j) @ ''_obf'')
                 (gv_name (GlobalList (fold rename_global rest ?M1) ! j))"
    if "j \<in> set (i # rest)" for j
  proof (cases "j = i")
    case True
    then show ?thesis using ih3 [of i] inot i fr(4) fr(5) by simp
  next
    case False
    with that have "j \<in> set rest" by simp
    then show ?thesis using ih4 [of j] fr(3) [of j] False by simp
  qed
  show ?case
    unfolding rename_post_def using ih1 ih2 c3 c4 by simp
qed

lemma toRename_set:
  "set (toRename M) = {i. i < length (GlobalList M)
      \<and> gv_linkage (GlobalList M ! i) = PrivateLinkage
      \<and> \<not> endswith (gv_name (GlobalList M ! i)) ''_obf''
      \<and> \<not> endswith (gv_name (GlobalList M ! i)) ''_enc''}"
  by (auto simp: toRename_def)

lemma toRename_distinct: "distinct (toRename M)"
  by (simp add: toRename_def)

lemma renamePrivateGlobals_post:
  "rename_post (toRename M) M (snd (renamePrivateGlobals M))"
  using fold_rename_post [OF toRename_distinct, of M M]
  by (simp add: renamePrivateGlobals_def toRename_set)

text \<open>Every global keeps everything but its name, and its old name begins the new one.\<close>

lemma renamePrivateGlobals_keeps:
  assumes "j < length (GlobalList M)"
  shows "GlobalList (snd (renamePrivateGlobals M)) ! j
           = (GlobalList M ! j)\<lparr>gv_name := gv_name (GlobalList (snd (renamePrivateGlobals M)) ! j)\<rparr>"
    and "prefix (gv_name (GlobalList M ! j)) (gv_name (GlobalList (snd (renamePrivateGlobals M)) ! j))"
proof -
  let ?M' = "snd (renamePrivateGlobals M)"
  have post: "rename_post (toRename M) M ?M'" by (rule renamePrivateGlobals_post)
  show "GlobalList ?M' ! j = (GlobalList M ! j)\<lparr>gv_name := gv_name (GlobalList ?M' ! j)\<rparr>"
  proof (cases "j \<in> set (toRename M)")
    case True
    with post show ?thesis by (simp add: rename_post_def)
  next
    case False
    with post assms have "GlobalList ?M' ! j = GlobalList M ! j" by (simp add: rename_post_def)
    then show ?thesis by simp
  qed
  show "prefix (gv_name (GlobalList M ! j)) (gv_name (GlobalList ?M' ! j))"
  proof (cases "j \<in> set (toRename M)")
    case True
    with post have "prefix (gv_name (GlobalList M ! j) @ ''_obf'') (gv_name (GlobalList ?M' ! j))"
      by (simp add: rename_post_def)
    then show ?thesis by (rule append_prefixD)
  next
    case False
    with post assms have "GlobalList ?M' ! j = GlobalList M ! j" by (simp add: rename_post_def)
    then show ?thesis by simp
  qed
qed

lemma endswith_obf: "endswith (n @ ''_obf'') ''_obf''"
  by (simp add: endswith_def)

lemma rename_global_exact:
  assumes i: "i < length (GlobalList M)"
    and free: "gv_name (GlobalList M ! i) @ ''_obf'' \<notin> set (symbol_names M)"
  shows "rename_global i M =
     M\<lparr>GlobalList := (GlobalList M)[i := (GlobalList M ! i)
          \<lparr>gv_name := gv_name (GlobalList M ! i) @ ''_obf''\<rparr>]\<rparr>"
proof -
  let ?G = "GlobalList M"
  have "set (map gv_name (take i ?G @ drop (Suc i) ?G)) \<subseteq> set (map gv_name ?G)"
    using set_take_subset [of i ?G] set_drop_subset [of "Suc i" ?G] by auto
  then have "gv_name (?G ! i) @ ''_obf''
      \<notin> set (map gv_name (take i ?G @ drop (Suc i) ?G) @ map fn_name (FunctionList M))"
    using free by (auto simp: symbol_names_def)
  then show ?thesis
    by (simp add: rename_global_def GV_setName_def Let_def createValueName_free)
qed

lemma suffixed_nth:
  "j < length G \<Longrightarrow> suffixed is G ! j =
     (if j \<in> set is then (G ! j)\<lparr>gv_name := gv_name (G ! j) @ ''_obf''\<rparr> else G ! j)"
  by (simp add: suffixed_def)

lemma length_suffixed: "length (suffixed is G) = length G"
  by (simp add: suffixed_def)

lemma fold_rename_exact:
  assumes "distinct is" "\<forall>i\<in>set is. i < length (GlobalList M)"
    and "distinct (map (\<lambda>i. gv_name (GlobalList M ! i) @ ''_obf'') is)"
    and "\<forall>i\<in>set is. gv_name (GlobalList M ! i) @ ''_obf'' \<notin> set (symbol_names M)"
  shows "fold rename_global is M = M\<lparr>GlobalList := suffixed is (GlobalList M)\<rparr>"
  using assms
proof (induction "is" arbitrary: M)
  case Nil
  have "suffixed [] (GlobalList M) = GlobalList M"
    by (simp add: suffixed_def map_nth)
  then show ?case by simp
next
  case (Cons i rest)
  let ?G = "GlobalList M"
  let ?t = "\<lambda>j. gv_name (?G ! j) @ ''_obf''"
  let ?G1 = "?G[i := (?G ! i)\<lparr>gv_name := ?t i\<rparr>]"
  let ?M1 = "M\<lparr>GlobalList := ?G1\<rparr>"
  have i: "i < length ?G" using Cons.prems(2) by simp
  have inot: "i \<notin> set rest" using Cons.prems(1) by simp
  have step: "rename_global i M = ?M1"
    using rename_global_exact [OF i] Cons.prems(4) by simp
  have same: "?G1 ! j = ?G ! j" if "j \<in> set rest" for j
  proof -
    from that inot have "i \<noteq> j" by auto
    then show ?thesis by simp
  qed
  have d1: "distinct rest" using Cons.prems(1) by simp
  have b1: "\<forall>j\<in>set rest. j < length (GlobalList ?M1)" using Cons.prems(2) by simp
  have t1: "map (\<lambda>j. gv_name (GlobalList ?M1 ! j) @ ''_obf'') rest = map ?t rest"
    using same by simp
  have dt1: "distinct (map (\<lambda>j. gv_name (GlobalList ?M1 ! j) @ ''_obf'') rest)"
    unfolding t1 using Cons.prems(3) by simp
  have names1: "set (symbol_names ?M1) \<subseteq> insert (?t i) (set (symbol_names M))"
  proof -
    have "set ?G1 \<subseteq> insert ((?G ! i)\<lparr>gv_name := ?t i\<rparr>) (set ?G)"
      by (rule set_update_subset_insert)
    then have "gv_name ` set ?G1 \<subseteq> insert (?t i) (gv_name ` set ?G)"
      by auto
    then show ?thesis by (auto simp: symbol_names_def)
  qed
  have f1: "\<forall>j\<in>set rest. gv_name (GlobalList ?M1 ! j) @ ''_obf'' \<notin> set (symbol_names ?M1)"
  proof
    fix j assume j: "j \<in> set rest"
    have "?t i \<notin> ?t ` set rest" using Cons.prems(3) by simp
    moreover have "?t j \<in> ?t ` set rest" using j by (rule imageI)
    ultimately have "?t j \<noteq> ?t i" by (rule_tac notI) simp
    moreover have "?t j \<notin> set (symbol_names M)" using Cons.prems(4) j by simp
    ultimately have "?t j \<notin> set (symbol_names ?M1)" using names1 by auto
    then show "gv_name (GlobalList ?M1 ! j) @ ''_obf'' \<notin> set (symbol_names ?M1)"
      using same [OF j] by simp
  qed
  have ih: "fold rename_global rest ?M1 = ?M1\<lparr>GlobalList := suffixed rest (GlobalList ?M1)\<rparr>"
    by (rule Cons.IH [OF d1 b1 dt1 f1])
  have "suffixed rest ?G1 = suffixed (i # rest) ?G"
  proof (rule nth_equalityI)
    show "length (suffixed rest ?G1) = length (suffixed (i # rest) ?G)"
      by (simp add: length_suffixed)
  next
    fix j assume "j < length (suffixed rest ?G1)"
    then have j: "j < length ?G" by (simp add: length_suffixed)
    show "suffixed rest ?G1 ! j = suffixed (i # rest) ?G ! j"
    proof (cases "j = i")
      case True
      then show ?thesis using i inot by (simp add: suffixed_nth)
    next
      case False
      then have "?G1 ! j = ?G ! j" by simp
      then show ?thesis using j False by (simp add: suffixed_nth)
    qed
  qed
  then show ?case
    using step ih by simp
qed

lemma toRename_suffixed: "toRename (M\<lparr>GlobalList := suffixed (toRename M) (GlobalList M)\<rparr>) = []"
proof -
  have "set (toRename (M\<lparr>GlobalList := suffixed (toRename M) (GlobalList M)\<rparr>)) = {}"
    unfolding toRename_set
    by (auto simp: length_suffixed suffixed_nth toRename_set endswith_obf)
  then show ?thesis by simp
qed

lemma rename_once_exact:
  assumes "distinct (map (\<lambda>i. gv_name (GlobalList M ! i) @ ''_obf'') (toRename M))"
    and "\<forall>i\<in>set (toRename M). gv_name (GlobalList M ! i) @ ''_obf'' \<notin> set (symbol_names M)"
  shows "snd (renamePrivateGlobals M) = M\<lparr>GlobalList := suffixed (toRename M) (GlobalList M)\<rparr>"
  using fold_rename_exact [OF toRename_distinct _ assms]
  by (simp add: renamePrivateGlobals_def toRename_set)

lemma rename_twice_exact:
  assumes "distinct (map (\<lambda>i. gv_name (GlobalList M ! i) @ ''_obf'') (toRename M))"
    and "\<forall>i\<in>set (toRename M). gv_name (GlobalList M ! i) @ ''_obf'' \<notin> set (symbol_names M)"
  shows "renamePrivateGlobals (snd (renamePrivateGlobals M)) = (False, snd (renamePrivateGlobals M))"
  unfolding rename_once_exact [OF assms]
  by (simp add: renamePrivateGlobals_def toRename_suffixed)

lemma rename_skips_suffixed:
  assumes "j < length (GlobalList M)"
    and "endswith (gv_name (GlobalList M ! j)) ''_obf'' \<or> endswith (gv_name (GlobalList M ! j)) ''_enc''"
  shows "GlobalList (snd (renamePrivateGlobals M)) ! j = GlobalList M ! j"
proof -
  have "j \<notin> set (toRename M)" using assms(2) by (auto simp: toRename_set)
  with renamePrivateGlobals_post [of M] assms(1) show ?thesis
    by (simp add: rename_post_def)
qed

lemma dead_conditional_loop_names:
  "map fn_name (snd (dead_conditional_loop Fs)) = map fn_name Fs"
  by (induction Fs) (simp_all add: add_dead_conditional_def Let_def)

lemma insertDeadConditionals_globals:
  "GlobalList (snd (insertDeadConditionals M)) = GlobalList M"
  by (simp add: insertDeadConditionals_def)

lemma insertDeadConditionals_adds:
  "adds_functions M (snd (insertDeadConditionals M)) 0"
  by (rule adds_functions_same) (simp add: insertDeadConditionals_def dead_conditional_loop_names)

text \<open>The four passes of one cycle, one after the other.\<close>

lemma run_cycle_InrD:
  assumes "run_cycle rnd opts (ch, st) = Inr (ch', st')"
  obtains c1 st1 st2 M3 M4
  where "obfuscateStrings (XorKey opts) st = Inr (c1, st1)"
    and "st2 = snd (insertBogusFunctions rnd (BogusCount opts) st1)"
    and "M3 = snd (renamePrivateGlobals (ps_module st2))"
    and "M4 = snd (insertDeadConditionals M3)"
    and "st' = st2\<lparr>ps_module := M4, cycles_completed := cycles_completed st2 + 1\<rparr>"
proof (cases "obfuscateStrings (XorKey opts) st")
  case (Inl e)
  with assms show ?thesis by (simp add: run_cycle_def)
next
  case (Inr p)
  obtain c1 st1 where p: "p = (c1, st1)" by (cases p)
  have "st' = (snd (insertBogusFunctions rnd (BogusCount opts) st1))
      \<lparr>ps_module := snd (insertDeadConditionals (snd (renamePrivateGlobals
          (ps_module (snd (insertBogusFunctions rnd (BogusCount opts) st1)))))),
       cycles_completed := cycles_completed (snd (insertBogusFunctions rnd (BogusCount opts) st1)) + 1\<rparr>"
    using assms Inr p by (simp add: run_cycle_def split_beta Let_def)
  with Inr p that show ?thesis by blast
qed

lemma encrypted_in_place_renamed:
  assumes "encrypted_in_place key g g1" "g2 = g1\<lparr>gv_name := n\<rparr>" "prefix (gv_name g1) n"
  shows "encrypted_in_place key g g2"
  using assms prefix_order.trans [of "gv_name g @ ''_obf''" "gv_name g1" n]
  by (auto simp: encrypted_in_place_def)

lemma run_cycle_post:
  assumes "run_cycle rnd opts (ch, st) = Inr (ch', st')"
  shows "cycle_post (XorKey opts) (nat (BogusCount opts)) st st'"
proof -
  let ?G = "GlobalList (ps_module st)"
  let ?sg = "stringGlobals (ps_module st)"
  from assms obtain c1 st1 st2 M3 M4
    where os: "obfuscateStrings (XorKey opts) st = Inr (c1, st1)"
      and st2: "st2 = snd (insertBogusFunctions rnd (BogusCount opts) st1)"
      and M3: "M3 = snd (renamePrivateGlobals (ps_module st2))"
      and M4: "M4 = snd (insertDeadConditionals M3)"
      and st': "st' = st2\<lparr>ps_module := M4, cycles_completed := cycles_completed st2 + 1\<rparr>"
    by (rule run_cycle_InrD)
  from obfuscateStrings_post(1) [OF os] have
    p1: "length (GlobalList (ps_module st1)) = length ?G + length ?sg"
    and p2: "FunctionList (ps_module st1) = FunctionList (ps_module st)"
    and p3: "strings_obf_count st1 = strings_obf_count st + of_nat (length ?sg)"
    and p4: "fake_funcs_inserted st1 = fake_funcs_inserted st"
    and p5: "cycles_completed st1 = cycles_completed st"
    and p6: "rand_calls st1 = rand_calls st"
    and p7: "\<And>j. j < length ?G \<Longrightarrow> j \<notin> set ?sg \<Longrightarrow> GlobalList (ps_module st1) ! j = ?G ! j"
    and p8: "\<And>j. j \<in> set ?sg \<Longrightarrow> encrypted_in_place (XorKey opts) (?G ! j) (GlobalList (ps_module st1) ! j)"
    by (simp_all add: found_post_def)
  from insertBogusFunctions_post [of "BogusCount opts" st1 rnd] have
    b1: "adds_functions (ps_module st1) (ps_module st2) (nat (BogusCount opts))"
    and b2: "GlobalList (ps_module st2) = GlobalList (ps_module st1)"
    and b3: "fake_funcs_inserted st2 = fake_funcs_inserted st1 + of_nat (nat (BogusCount opts))"
    and b4: "rand_calls st2 = rand_calls st1 + nat (BogusCount opts)"
    and b5: "strings_obf_count st2 = strings_obf_count st1"
    and b6: "cycles_completed st2 = cycles_completed st1"
    by (simp_all add: bogus_post_def st2)
  have r: "rename_post (toRename (ps_module st2)) (ps_module st2) M3"
    unfolding M3 by (rule renamePrivateGlobals_post)
  have r1: "length (GlobalList M3) = length (GlobalList (ps_module st2))"
    and r2: "FunctionList M3 = FunctionList (ps_module st2)"
    using r by (simp_all add: rename_post_def)
  have g4: "GlobalList M4 = GlobalList M3"
    unfolding M4 by (rule insertDeadConditionals_globals)
  have m': "ps_module st' = M4" by (simp add: st')
  have f0: "adds_functions (ps_module st) (ps_module st1) 0"
    by (rule adds_functions_same) (simp add: p2)
  have f2: "adds_functions (ps_module st2) M3 0"
    by (rule adds_functions_same) (simp add: r2)
  have f3: "adds_functions M3 M4 0"
    unfolding M4 by (rule insertDeadConditionals_adds)
  have "adds_functions (ps_module st) M4 (0 + nat (BogusCount opts) + 0 + 0)"
    by (rule adds_functions_trans [OF adds_functions_trans [OF adds_functions_trans
          [OF f0 b1] f2] f3])
  then have c1: "adds_functions (ps_module st) (ps_module st') (nat (BogusCount opts))"
    by (simp add: m')
  have keep: "GlobalList M4 ! j = (GlobalList (ps_module st1) ! j)\<lparr>gv_name := gv_name (GlobalList M4 ! j)\<rparr>"
    and pre: "prefix (gv_name (GlobalList (ps_module st1) ! j)) (gv_name (GlobalList M4 ! j))"
    if "j < length (GlobalList (ps_module st1))" for j
    using renamePrivateGlobals_keeps [of j "ps_module st2"] that
    by (simp_all add: g4 M3 b2)
  have c7: "GlobalList (ps_module st') ! j = ?G ! j"
    if "j < length ?G" "j \<notin> set ?sg" "j \<notin> set (toRename (ps_module st))" for j
  proof -
    have eq: "GlobalList (ps_module st2) ! j = ?G ! j" using that p7 by (simp add: b2)
    have "j < length (GlobalList (ps_module st2))" using that(1) p1 by (simp add: b2)
    moreover have "j \<notin> set (toRename (ps_module st2))"
      using that(3) that(1) eq by (simp add: toRename_set)
    ultimately have "GlobalList M3 ! j = GlobalList (ps_module st2) ! j"
      using r by (simp add: rename_post_def)
    then show ?thesis by (simp add: m' g4 eq)
  qed
  have c8: "GlobalList (ps_module st') ! j = (?G ! j)\<lparr>gv_name := gv_name (GlobalList (ps_module st') ! j)\<rparr>"
    if "j < length ?G" "j \<notin> set ?sg" for j
    using keep [of j] p7 [OF that] that(1) p1 by (simp add: m')
  have c9: "encrypted_in_place (XorKey opts) (?G ! j) (GlobalList (ps_module st') ! j)"
    if "j \<in> set ?sg" for j
  proof -
    have "j < length (GlobalList (ps_module st1))"
      using that p1 by (simp add: stringGlobals_set)
    from keep [OF this] pre [OF this] p8 [OF that] show ?thesis
      unfolding m' by (rule encrypted_in_place_renamed [rotated])
  qed
  show ?thesis
    unfolding cycle_post_def
    using c1 c7 c8 c9
    by (simp add: st' b3 p4 b4 p6 b5 p3 b6 p5 g4 r1 b2 p1)
qed

lemma run_cycles_functions:
  assumes "run_cycles n rnd opts (ch, st) = Inr (ch', st')"
  shows "adds_functions (ps_module st) (ps_module st') (n * nat (BogusCount opts))
     \<and> fake_funcs_inserted st' = fake_funcs_inserted st + of_nat (n * nat (BogusCount opts))
     \<and> rand_calls st' = rand_calls st + n * nat (BogusCount opts)
     \<and> cycles_completed st' = cycles_completed st + of_nat n"
  using assms
proof (induction n arbitrary: ch st)
  case 0
  then show ?case by (simp add: adds_functions_same)
next
  case (Suc n)
  from Suc.prems obtain ch1 st1 where c1: "run_cycle rnd opts (ch, st) = Inr (ch1, st1)"
    and rest: "run_cycles n rnd opts (ch1, st1) = Inr (ch', st')"
    by (auto split: sum.splits)
  from run_cycle_post [OF c1] have
    a: "adds_functions (ps_module st) (ps_module st1) (nat (BogusCount opts))"
    and b: "fake_funcs_inserted st1 = fake_funcs_inserted st + of_nat (nat (BogusCount opts))"
    and c: "rand_calls st1 = rand_calls st + nat (BogusCount opts)"
    and d: "cycles_completed st1 = cycles_completed st + 1"
    by (simp_all add: cycle_post_def)
  from Suc.IH [OF rest] have
    a': "adds_functions (ps_module st1) (ps_module st') (n * nat (BogusCount opts))"
    and b': "fake_funcs_inserted st' = fake_funcs_inserted st1 + of_nat (n * nat (BogusCount opts))"
    and c': "rand_calls st' = rand_calls st1 + n * nat (BogusCount opts)"
    and d': "cycles_completed st' = cycles_completed st1 + of_nat n"
    by simp_all
  have "adds_functions (ps_module st) (ps_module st')
          (nat (BogusCount opts) + n * nat (BogusCount opts))"
    by (rule adds_functions_trans [OF a a'])
  then show ?case
    by (simp add: b b' c c' d d' add.assoc)
qed

lemma run_cycle_external:
  assumes "run_cycle rnd opts (ch, st) = Inr (ch', st')"
    and "j < length (GlobalList (ps_module st))"
    and "gv_linkage (GlobalList (ps_module st) ! j) = ExternalLinkage"
  shows "GlobalList (ps_module st') ! j = GlobalList (ps_module st) ! j"
    and "length (GlobalList (ps_module st)) \<le> length (GlobalList (ps_module st'))"
proof -
  have "j \<notin> set (stringGlobals (ps_module st))"
    using assms(3) is_string_globalD(3) by (auto simp: stringGlobals_set)
  moreover have "j \<notin> set (toRename (ps_module st))"
    using assms(3) by (simp add: toRename_set)
  ultimately show "GlobalList (ps_module st') ! j = GlobalList (ps_module st) ! j"
    using run_cycle_post [OF assms(1)] assms(2) by (simp add: cycle_post_def)
  show "length (GlobalList (ps_module st)) \<le> length (GlobalList (ps_module st'))"
    using run_cycle_post [OF assms(1)] by (simp add: cycle_post_def)
qed

lemma run_cycles_external:
  assumes "run_cycles n rnd opts (ch, st) = Inr (ch', st')"
    and "j < length (GlobalList (ps_module st))"
    and "gv_linkage (GlobalList (ps_module st) ! j) = ExternalLinkage"
  shows "GlobalList (ps_module st') ! j = GlobalList (ps_module st) ! j"
  using assms
proof (induction n arbitrary: ch st)
  case 0
  then show ?case by simp
next
  case (Suc n)
  from Suc.prems(1) obtain ch1 st1 where c1: "run_cycle rnd opts (ch, st) = Inr (ch1, st1)"
    and rest: "run_cycles n rnd opts (ch1, st1) = Inr (ch', st')"
    by (auto split: sum.splits)
  note e = run_cycle_external [OF c1 Suc.prems(2) Suc.prems(3)]
  have "j < length (GlobalList (ps_module st1))" using e(2) Suc.prems(2) by simp
  moreover have "gv_linkage (GlobalList (ps_module st1) ! j) = ExternalLinkage"
    using e(1) Suc.prems(3) by simp
  ultimately have "GlobalList (ps_module st') ! j = GlobalList (ps_module st1) ! j"
    by (rule Suc.IH [OF rest])
  with e(1) show ?case by simp
qed

lemma payload_bytes_get: "payload_bytes (ConstantDataArray_get bs) = Some bs"
proof (cases "list_all (\<lambda>b. b = 0) bs")
  case True
  then have "replicate (length bs) 0 = bs"
    by (induction bs) simp_all
  with True show ?thesis by (simp add: ConstantDataArray_get_def)
next
  case False
  then show ?thesis by (simp add: ConstantDataArray_get_def)
qed

lemma xor_byte_zero_key: "key AND 0xFF = 0 \<Longrightarrow> xor_byte key c = c"
  by (simp add: xor_byte_def)

lemma encrypted_bytes_zero_key:
  assumes "key AND 0xFF = 0" "isCString bs"
  shows "encrypted_bytes key (butlast bs) = bs"
proof -
  have "map (xor_byte key) (butlast bs) = butlast bs"
    by (rule map_idI) (simp add: xor_byte_zero_key [OF assms(1)])
  moreover have "butlast bs @ [0] = bs"
    using assms(2) append_butlast_last_id [of bs] by (simp add: isCString_def)
  ultimately show ?thesis by (simp add: encrypted_bytes_def)
qed

lemma add_dead_conditional_blocks:
  assumes "fn_blocks F \<noteq> []"
  shows "length (fn_blocks (add_dead_conditional F)) = length (fn_blocks F) + 2"
    and "fn_blocks (add_dead_conditional F) ! 0
           = CondBr (ConstantInt 1 0) (length (fn_blocks F)) (Suc (length (fn_blocks F)))
               # hd (fn_blocks F)"
    and "fn_blocks (add_dead_conditional F) ! Suc (length (fn_blocks F)) = [Br 0]"
proof -
  obtain e rest where bl: "fn_blocks F = e # rest" using assms by (cases "fn_blocks F") auto
  show "length (fn_blocks (add_dead_conditional F)) = length (fn_blocks F) + 2"
    by (simp add: add_dead_conditional_def Let_def bl)
  show "fn_blocks (add_dead_conditional F) ! 0
           = CondBr (ConstantInt 1 0) (length (fn_blocks F)) (Suc (length (fn_blocks F)))
               # hd (fn_blocks F)"
    by (simp add: add_dead_conditional_def Let_def bl CreateICmpEQ_def)
  show "fn_blocks (add_dead_conditional F) ! Suc (length (fn_blocks F)) = [Br 0]"
    by (simp add: add_dead_conditional_def Let_def bl nth_append)
qed

lemma dead_conditional_never_returns:
  assumes "fn_blocks F \<noteq> []"
  shows "exec fuel (fn_blocks (add_dead_conditional F)) args env 0 0 = OutOfFuel
       \<and> exec fuel (fn_blocks (add_dead_conditional F)) args env (Suc (length (fn_blocks F))) 0
           = OutOfFuel"
proof (induction fuel arbitrary: env)
  case 0
  then show ?case by simp
next
  case (Suc fuel)
  note b = add_dead_conditional_blocks [OF assms]
  show ?case
    using Suc.IH [of env] by (simp add: b)
qed

lemma xor_byte_eq_0: "xor_byte k c = 0 \<longleftrightarrow> c = word_of_int k"
proof
  assume "xor_byte k c = 0"
  then have "(c XOR word_of_int k) XOR word_of_int k = (0 :: 8 word) XOR word_of_int k"
    by (simp only: xor_byte_eq)
  then show "c = word_of_int k" by (simp add: xor.assoc)
next
  assume "c = word_of_int k"
  then show "xor_byte k c = 0" by (simp add: xor_byte_eq)
qed

lemma xor_byte_eq_key: "xor_byte k c = word_of_int k \<longleftrightarrow> c = 0"
proof
  assume "xor_byte k c = word_of_int k"
  then have "xor_byte k (xor_byte k c) = xor_byte k (word_of_int k)" by simp
  then show "c = 0" by (simp add: xor_byte_twice) (simp add: xor_byte_eq)
next
  assume "c = 0"
  then show "xor_byte k c = word_of_int k" by (simp add: xor_byte_eq)
qed

lemma run_cycle_steps:
  assumes "obfuscateStrings (XorKey opts) st = Inr (c1, st1)"
    and "insertBogusFunctions rnd (BogusCount opts) st1 = (c2, st2)"
    and "renamePrivateGlobals (ps_module st2) = (c3, M3)"
    and "insertDeadConditionals M3 = (c4, M4)"
  shows "run_cycle rnd opts (ch, st) =
     Inr (ch \<or> c1 \<or> c2 \<or> c3 \<or> c4,
          st2\<lparr>ps_module := M4, cycles_completed := cycles_completed st2 + 1\<rparr>)"
  by (simp add: run_cycle_def assms)

lemma createValueName_taken:
  "Name \<in> set used \<Longrightarrow> unique_candidate Name (Suc l) \<notin> set used \<Longrightarrow>
   createValueName used Name l = (unique_candidate Name (Suc l), Suc l)"
  by (simp add: createValueName_def makeUniqueName.simps [of used Name l])

lemma insertBogusFunctions_none: "B \<le> 0 \<Longrightarrow> insertBogusFunctions rnd B st = (False, st)"
  by (simp add: insertBogusFunctions_def)

lemma demo_stringGlobals: "stringGlobals demo_module = [0]"
  by (simp add: stringGlobals_def demo_module_def string_constant_def is_string_global_def)

lemma demo_encryptString: "encryptString 0xAA demo_module 0 = Inr demo_encrypted"
proof -
  have bs: "gv_initializer (GlobalList demo_module ! 0)
              = Some (ConstantDataArray [0x41, 0x42, 0x43, 0x00])"
    by (simp add: demo_module_def string_constant_def)
  have cs: "isCString [0x41, 0x42, 0x43, 0x00 :: 8 word]"
    by (simp add: isCString_def)
  have lt: "0 < length (GlobalList demo_module)" by (simp add: demo_module_def)
  have enc: "encryptedData 0xAA [0x41, 0x42, 0x43, 0x00]
               = ConstantDataArray [0xEB, 0xE8, 0xE9, 0x00]"
    by (simp add: encryptedData_def encrypted_bytes_def xor_byte_def ConstantDataArray_get_def)
  show ?thesis
    unfolding encryptString_Inr [OF lt bs cs] enc
    by (simp add: demo_module_def demo_encrypted_def string_constant_def new_GlobalVariable_def
        GV_setInitializer_def GV_setName_def symbol_names_def createValueName_free)
qed

lemma demo_obfuscateStrings:
  "obfuscateStrings 0xAA (initial demo_module) =
     Inr (True, (initial demo_encrypted)\<lparr>strings_obf_count := 1\<rparr>)"
  using demo_encryptString
  by (simp add: obfuscateStrings_def demo_stringGlobals initial_def)

lemma demo_renamePrivateGlobals: "renamePrivateGlobals demo_encrypted = (False, demo_encrypted)"
  by (simp add: renamePrivateGlobals_def toRename_def demo_encrypted_def string_constant_def
      endswith_def)

lemma no_functions_no_dead_conditional:
  "FunctionList M = [] \<Longrightarrow> insertDeadConditionals M = (False, M)"
  by (simp add: insertDeadConditionals_def)

lemma demo_cycle:
  assumes "XorKey opts = 0xAA" "BogusCount opts \<le> 0"
  shows "run_cycle rnd opts (False, initial demo_module) =
     Inr (True, (initial demo_encrypted)\<lparr>strings_obf_count := 1, cycles_completed := 1\<rparr>)"
proof -
  have os: "obfuscateStrings (XorKey opts) (initial demo_module) =
     Inr (True, (initial demo_encrypted)\<lparr>strings_obf_count := 1\<rparr>)"
    using demo_obfuscateStrings assms(1) by simp
  have ib: "insertBogusFunctions rnd (BogusCount opts)
        ((initial demo_encrypted)\<lparr>strings_obf_count := 1\<rparr>)
      = (False, (initial demo_encrypted)\<lparr>strings_obf_count := 1\<rparr>)"
    by (rule insertBogusFunctions_none [OF assms(2)])
  have rn: "renamePrivateGlobals (ps_module ((initial demo_encrypted)\<lparr>strings_obf_count := 1\<rparr>))
      = (False, demo_encrypted)"
    using demo_renamePrivateGlobals by (simp add: initial_def)
  have dc: "insertDeadConditionals demo_encrypted = (False, demo_encrypted)"
    by (rule no_functions_no_dead_conditional) (simp add: demo_encrypted_def)
  show ?thesis
    using run_cycle_steps [OF os ib rn dc, of False] by (simp add: initial_def)
qed

lemma to_string_small: "to_string 0 = ''0''" "to_string (Suc 0) = ''1''" "to_string 7 = ''7''"
  by (simp_all add: to_string.simps [of 0] to_string.simps [of "Suc 0"] to_string.simps [of 7])

lemma no_globals_no_strings:
  "GlobalList (ps_module st) = [] \<Longrightarrow> obfuscateStrings key st = Inr (False, st)"
  by (simp add: obfuscateStrings_def stringGlobals_def)

lemma no_globals_no_rename: "GlobalList M = [] \<Longrightarrow> renamePrivateGlobals M = (False, M)"
  by (simp add: renamePrivateGlobals_def toRename_def)

lemma insert_first_bogus:
  "insertBogusFunctions rand_sevens 1 (initial empty_module) =
     (True, (initial one_bogus)\<lparr>fake_funcs_inserted := 1, rand_calls := 1\<rparr>)"
  by (simp add: insertBogusFunctions_def insert_bogus_def Let_def Function_Create_def
      symbol_names_def createValueName_free initial_def empty_module_def one_bogus_def
      bogus_function_def to_string_small rand_sevens_def)

lemma insert_second_bogus:
  "insertBogusFunctions rand_sevens 1
     ((initial one_bogus)\<lparr>fake_funcs_inserted := 1, cycles_completed := 1, rand_calls := 1\<rparr>) =
     (True, (initial two_bogus)\<lparr>fake_funcs_inserted := 2, cycles_completed := 1,
                                 rand_calls := 2\<rparr>)"
proof -
  have cand: "unique_candidate ''bogus_func_0_7'' (Suc 0) = ''bogus_func_0_7.1''"
    by (simp add: unique_candidate_def to_string_small)
  have cv: "createValueName [''bogus_func_0_7''] ''bogus_func_0_7'' 0 = (''bogus_func_0_7.1'', Suc 0)"
    using createValueName_taken [of "''bogus_func_0_7''" "[''bogus_func_0_7'']" 0]
    by (simp add: cand)
  show ?thesis
    by (simp add: insertBogusFunctions_def insert_bogus_def Let_def Function_Create_def
        symbol_names_def initial_def one_bogus_def two_bogus_def bogus_function_def
        to_string_small cv rand_sevens_def)
qed

lemma bogus_not_modified:
  "insertDeadConditionals one_bogus = (False, one_bogus)"
  "insertDeadConditionals two_bogus = (False, two_bogus)"
  by (simp_all add: insertDeadConditionals_def one_bogus_def two_bogus_def bogus_function_def
      startswith_def)

lemma empty_two_cycles:
  "runOnModule rand_sevens \<lparr>XorKey = 170, BogusCount = 1, Cycles = 2\<rparr> (initial empty_module) =
     Inr (True, (initial two_bogus)\<lparr>fake_funcs_inserted := 2, cycles_completed := 2,
                                     rand_calls := 2\<rparr>)"
proof -
  let ?opts = "\<lparr>XorKey = 170, BogusCount = 1, Cycles = 2\<rparr>"
  let ?st1 = "(initial one_bogus)\<lparr>fake_funcs_inserted := 1, rand_calls := 1\<rparr>"
  let ?st1' = "(initial one_bogus)\<lparr>fake_funcs_inserted := 1, cycles_completed := 1, rand_calls := 1\<rparr>"
  let ?st2 = "(initial two_bogus)\<lparr>fake_funcs_inserted := 2, cycles_completed := 1, rand_calls := 2\<rparr>"
  let ?st2' = "(initial two_bogus)\<lparr>fake_funcs_inserted := 2, cycles_completed := 2, rand_calls := 2\<rparr>"
  have os1: "obfuscateStrings (XorKey ?opts) (initial empty_module) = Inr (False, initial empty_module)"
    by (rule no_globals_no_strings) (simp add: initial_def empty_module_def)
  have ib1: "insertBogusFunctions rand_sevens (BogusCount ?opts) (initial empty_module) = (True, ?st1)"
    using insert_first_bogus by simp
  have rn1: "renamePrivateGlobals (ps_module ?st1) = (False, one_bogus)"
    using no_globals_no_rename [of one_bogus] by (simp add: initial_def one_bogus_def)
  have cyc1: "run_cycle rand_sevens ?opts (False, initial empty_module) = Inr (True, ?st1')"
    using run_cycle_steps [OF os1 ib1 rn1 bogus_not_modified(1), of False]
    by (simp add: initial_def)
  have os2: "obfuscateStrings (XorKey ?opts) ?st1' = Inr (False, ?st1')"
    by (rule no_globals_no_strings) (simp add: initial_def one_bogus_def)
  have ib2: "insertBogusFunctions rand_sevens (BogusCount ?opts) ?st1' = (True, ?st2)"
    using insert_second_bogus by simp
  have rn2: "renamePrivateGlobals (ps_module ?st2) = (False, two_bogus)"
    using no_globals_no_rename [of two_bogus] by (simp add: initial_def two_bogus_def)
  have cyc2: "run_cycle rand_sevens ?opts (True, ?st1') = Inr (True, ?st2')"
    using run_cycle_steps [OF os2 ib2 rn2 bogus_not_modified(2), of True]
    by (simp add: initial_def)
  have n: "nat (Cycles ?opts) = Suc (Suc 0)" by simp
  show ?thesis
    unfolding runOnModule_def n
    by (simp only: run_cycles.simps cyc1 cyc2 sum.case)
qed

lemma clash_renamed_once:
  "renamePrivateGlobals clash_module =
     (True, clash_module\<lparr>GlobalList :=
        [\<lparr>gv_name = ''x_obf.1'', gv_linkage = PrivateLinkage, gv_isConstant = False,
          gv_initializer = None\<rparr>,
         \<lparr>gv_name = ''x_obf'', gv_linkage = PrivateLinkage, gv_isConstant = False,
          gv_initializer = None\<rparr>], LastUnique := 1\<rparr>)"
proof -
  have cand: "unique_candidate ''x_obf'' (Suc 0) = ''x_obf.1''"
    by (simp add: unique_candidate_def to_string_small)
  have cv: "createValueName [''x_obf''] ''x_obf'' 0 = (''x_obf.1'', Suc 0)"
    using createValueName_taken [of "''x_obf''" "[''x_obf'']" 0] by (simp add: cand)
  show ?thesis
    by (simp add: renamePrivateGlobals_def toRename_def rename_global_def GV_setName_def
        clash_module_def endswith_def cv)
qed

lemma a_obfuscateStrings:
  "obfuscateStrings 0x41 (initial a_module) =
     Inr (True, (initial a_encrypted)\<lparr>strings_obf_count := 1\<rparr>)"
proof -
  have sg: "stringGlobals a_module = [0]"
    by (simp add: stringGlobals_def a_module_def string_constant_def is_string_global_def)
  have bs: "gv_initializer (GlobalList a_module ! 0) = Some (ConstantDataArray [0x41, 0x00])"
    by (simp add: a_module_def string_constant_def)
  have cs: "isCString [0x41, 0x00 :: 8 word]" by (simp add: isCString_def)
  have lt: "0 < length (GlobalList a_module)" by (simp add: a_module_def)
  have enc: "encryptedData 0x41 [0x41, 0x00] = ConstantAggregateZero 2"
    by (simp add: encryptedData_def encrypted_bytes_def xor_byte_def ConstantDataArray_get_def)
  have "encryptString 0x41 a_module 0 = Inr a_encrypted"
    unfolding encryptString_Inr [OF lt bs cs] enc
    by (simp add: a_module_def a_encrypted_def string_constant_def new_GlobalVariable_def
        GV_setInitializer_def GV_setName_def symbol_names_def createValueName_free)
  then show ?thesis
    by (simp add: obfuscateStrings_def sg initial_def)
qed

lemma a_encrypted_stringGlobals: "stringGlobals a_encrypted = []"
  by (simp add: stringGlobals_def a_encrypted_def string_constant_def is_string_global_def)

lemma a_encrypted_rename: "renamePrivateGlobals a_encrypted = (False, a_encrypted)"
  by (simp add: renamePrivateGlobals_def toRename_def a_encrypted_def string_constant_def
      endswith_def)

lemma encrypted_data_array:
  assumes cs: "isCString bs" and ex: "\<exists>c\<in>set (butlast bs). c \<noteq> word_of_int key"
  shows "encryptedData key bs = ConstantDataArray (encrypted_bytes key (butlast bs))"
    and "\<exists>c\<in>set (butlast (encrypted_bytes key (butlast bs))). c \<noteq> word_of_int key"
proof -
  from ex obtain c where c: "c \<in> set (butlast bs)" "c \<noteq> word_of_int key" by blast
  have nz: "0 \<notin> set (butlast bs)" using cs by (simp add: isCString_def)
  have "xor_byte key c \<noteq> 0" using c(2) by (simp add: xor_byte_eq_0)
  moreover have "xor_byte key c \<in> set (encrypted_bytes key (butlast bs))"
    using c(1) by (simp add: encrypted_bytes_def)
  ultimately have "\<not> list_all (\<lambda>b. b = 0) (encrypted_bytes key (butlast bs))"
    by (auto simp: list_all_iff)
  then show "encryptedData key bs = ConstantDataArray (encrypted_bytes key (butlast bs))"
    by (simp add: encryptedData_def ConstantDataArray_get_def)
  have "c \<noteq> 0" using c(1) nz by auto
  then have "xor_byte key c \<noteq> word_of_int key" by (simp add: xor_byte_eq_key)
  moreover have "xor_byte key c \<in> set (butlast (encrypted_bytes key (butlast bs)))"
    using c(1) by (simp add: encrypted_bytes_def)
  ultimately show "\<exists>c\<in>set (butlast (encrypted_bytes key (butlast bs))). c \<noteq> word_of_int key"
    by blast
qed

lemma run_cycle_string_global:
  assumes cyc: "run_cycle rnd opts (ch, st) = Inr (ch', st')"
    and i: "i \<in> set (stringGlobals (ps_module st))"
    and bs: "gv_initializer (GlobalList (ps_module st) ! i) = Some (ConstantDataArray bs)"
    and key: "\<exists>c\<in>set (butlast bs). c \<noteq> word_of_int (XorKey opts)"
  shows "gv_initializer (GlobalList (ps_module st') ! i)
           = Some (ConstantDataArray (encrypted_bytes (XorKey opts) (butlast bs)))"
    and "prefix (gv_name (GlobalList (ps_module st) ! i) @ ''_obf'')
           (gv_name (GlobalList (ps_module st') ! i))"
    and "strings_obf_count st'
           = strings_obf_count st + of_nat (length (stringGlobals (ps_module st)))"
    and "i \<in> set (stringGlobals (ps_module st'))"
    and "\<exists>c\<in>set (butlast (encrypted_bytes (XorKey opts) (butlast bs))).
           c \<noteq> word_of_int (XorKey opts)"
proof -
  let ?g = "GlobalList (ps_module st) ! i" and ?g' = "GlobalList (ps_module st') ! i"
  note post = run_cycle_post [OF cyc]
  from post i have eip: "encrypted_in_place (XorKey opts) ?g ?g'"
    by (simp add: cycle_post_def)
  with bs have cs: "isCString bs"
    and init': "gv_initializer ?g' = Some (encryptedData (XorKey opts) bs)"
    and link: "gv_linkage ?g' = gv_linkage ?g" and const: "gv_isConstant ?g' = gv_isConstant ?g"
    and pre: "prefix (gv_name ?g @ ''_obf'') (gv_name ?g')"
    by (auto simp: encrypted_in_place_def)
  note e = encrypted_data_array [OF cs key]
  show init: "gv_initializer ?g' = Some (ConstantDataArray (encrypted_bytes (XorKey opts) (butlast bs)))"
    using init' e(1) by simp
  show "prefix (gv_name ?g @ ''_obf'') (gv_name ?g')" by (rule pre)
  show "strings_obf_count st'
           = strings_obf_count st + of_nat (length (stringGlobals (ps_module st)))"
    using post by (simp add: cycle_post_def)
  have sg: "is_string_global ?g" and lt: "i < length (GlobalList (ps_module st))"
    using i by (simp_all add: stringGlobals_set)
  have "is_string_global ?g'"
    using init is_string_globalD(2,3) [OF sg] link const by (rule_tac is_string_globalI) simp_all
  moreover have "i < length (GlobalList (ps_module st'))"
    using post lt by (simp add: cycle_post_def)
  ultimately show "i \<in> set (stringGlobals (ps_module st'))"
    by (simp add: stringGlobals_set)
  show "\<exists>c\<in>set (butlast (encrypted_bytes (XorKey opts) (butlast bs))).
           c \<noteq> word_of_int (XorKey opts)"
    by (rule e(2))
qed

lemma run_cycles_string_global:
  assumes "run_cycles n rnd opts (ch, st) = Inr (ch', st')"
    and "i \<in> set (stringGlobals (ps_module st))"
    and "gv_initializer (GlobalList (ps_module st) ! i) = Some (ConstantDataArray bs)"
    and "\<exists>c\<in>set (butlast bs). c \<noteq> word_of_int (XorKey opts)"
  shows "i \<in> set (stringGlobals (ps_module st'))
     \<and> gv_initializer (GlobalList (ps_module st') ! i)
         = Some (ConstantDataArray
             (((\<lambda>b. encrypted_bytes (XorKey opts) (butlast b)) ^^ n) bs))
     \<and> prefix (gv_name (GlobalList (ps_module st) ! i)) (gv_name (GlobalList (ps_module st') ! i))
     \<and> length (gv_name (GlobalList (ps_module st) ! i)) + 4 * n
         \<le> length (gv_name (GlobalList (ps_module st') ! i))"
  using assms
proof (induction n arbitrary: ch st bs)
  case 0
  then show ?case by simp
next
  case (Suc n)
  let ?f = "\<lambda>b. encrypted_bytes (XorKey opts) (butlast b)"
  from Suc.prems(1) obtain ch1 st1 where c1: "run_cycle rnd opts (ch, st) = Inr (ch1, st1)"
    and rest: "run_cycles n rnd opts (ch1, st1) = Inr (ch', st')"
    by (auto split: sum.splits)
  note one = run_cycle_string_global [OF c1 Suc.prems(2,3,4)]
  note ih = Suc.IH [OF rest one(4) one(1) one(5)]
  have pre1: "prefix (gv_name (GlobalList (ps_module st) ! i) @ ''_obf'')
      (gv_name (GlobalList (ps_module st1) ! i))" by (rule one(2))
  then have len1: "length (gv_name (GlobalList (ps_module st) ! i)) + 4
      \<le> length (gv_name (GlobalList (ps_module st1) ! i))"
    using prefix_length_le by fastforce
  have p0: "prefix (gv_name (GlobalList (ps_module st) ! i))
      (gv_name (GlobalList (ps_module st1) ! i))"
    using pre1 by (rule append_prefixD)
  have "(?f ^^ n) (?f bs) = (?f ^^ Suc n) bs"
    using funpow_swap1 [of ?f n bs] by simp
  moreover have "prefix (gv_name (GlobalList (ps_module st) ! i))
      (gv_name (GlobalList (ps_module st') ! i))"
    using p0 ih by (blast intro: prefix_order.trans)
  moreover have "length (gv_name (GlobalList (ps_module st) ! i)) + 4 * Suc n
         \<le> length (gv_name (GlobalList (ps_module st') ! i))"
    using len1 ih by simp
  ultimately show ?case using ih by simp
qed

lemma encryptString_copy_name:
  assumes ok: "encryptString key M i = Inr M'" and i: "i < length (GlobalList M)"
    and free: "gv_name (GlobalList M ! i) @ ''_enc'' \<notin> set (symbol_names M)"
  shows "gv_name (GlobalList M' ! length (GlobalList M)) = gv_name (GlobalList M ! i) @ ''_enc''"
proof -
  from encryptString_InrD [OF ok] obtain bs
    where bs: "gv_initializer (GlobalList M ! i) = Some (ConstantDataArray bs)" "isCString bs"
    by blast
  define M1 where "M1 = new_GlobalVariable M True PrivateLinkage (encryptedData key bs)
               (gv_name (GlobalList M ! i) @ ''_enc'')"
  define M2 where "M2 = GV_setInitializer M1 i (encryptedData key bs)"
  have M': "M' = GV_setName M2 i (gv_name (GlobalList M ! i) @ ''_obf'')"
    using ok encryptString_Inr [OF i bs, of key] by (simp add: M1_def M2_def)
  have len2: "length (GlobalList M2) = Suc (length (GlobalList M))"
    by (simp add: M2_def M1_def GV_setInitializer_globals new_GlobalVariable_globals)
  have "gv_name (GlobalList M2 ! length (GlobalList M)) = gv_name (GlobalList M ! i) @ ''_enc''"
    using i free
    by (simp add: M2_def M1_def GV_setInitializer_globals new_GlobalVariable_globals
        createValueName_free)
  moreover have "GlobalList M' ! length (GlobalList M) = GlobalList M2 ! length (GlobalList M)"
    using i len2 by (simp add: M' GV_setName_globals)
  ultimately show ?thesis by simp
qed

lemma enc_name_not_obf: "prefix (nm @ ''_enc'') n \<Longrightarrow> n \<noteq> nm @ ''_obf''"
  by (auto simp: prefix_def)

lemma encryptString_exact:
  assumes ok: "encryptString key M i = Inr M'" and i: "i < length (GlobalList M)"
    and enc: "gv_name (GlobalList M ! i) @ ''_enc'' \<notin> set (symbol_names M)"
    and obf: "gv_name (GlobalList M ! i) @ ''_obf'' \<notin> set (symbol_names M)"
  shows "gv_name (GlobalList M' ! i) = gv_name (GlobalList M ! i) @ ''_obf''"
    and "gv_name (GlobalList M' ! length (GlobalList M)) = gv_name (GlobalList M ! i) @ ''_enc''"
    and "set (symbol_names M') \<subseteq>
           insert (gv_name (GlobalList M ! i) @ ''_enc'')
             (insert (gv_name (GlobalList M ! i) @ ''_obf'') (set (symbol_names M)))"
proof -
  let ?G = "GlobalList M" and ?nm = "gv_name (GlobalList M ! i)"
  from encryptString_InrD [OF ok] obtain bs
    where bs: "gv_initializer (?G ! i) = Some (ConstantDataArray bs)" "isCString bs"
    by blast
  define d where "d = encryptedData key bs"
  define g' where "g' = (?G ! i)\<lparr>gv_initializer := Some d\<rparr>"
  define c where "c = \<lparr>gv_name = ?nm @ ''_enc'', gv_linkage = PrivateLinkage,
      gv_isConstant = True, gv_initializer = Some d\<rparr>"
  define M2 where "M2 = GV_setInitializer
      (new_GlobalVariable M True PrivateLinkage d (?nm @ ''_enc'')) i d"
  have M': "M' = GV_setName M2 i (?nm @ ''_obf'')"
    using ok encryptString_Inr [OF i bs, of key] by (simp add: M2_def d_def)
  have G2: "GlobalList M2 = ?G[i := g'] @ [c]"
    using i enc
    by (simp add: M2_def GV_setInitializer_globals new_GlobalVariable_globals
        createValueName_free list_update_append nth_append g'_def c_def)
  have F2: "FunctionList M2 = FunctionList M"
    by (simp add: M2_def GV_setInitializer_functions new_GlobalVariable_functions)
  have L2: "LastUnique M2 = LastUnique M"
    using enc by (simp add: M2_def GV_setInitializer_def new_GlobalVariable_def
        createValueName_free)
  have others: "take i (GlobalList M2) @ drop (Suc i) (GlobalList M2)
      = take i ?G @ drop (Suc i) ?G @ [c]"
    using i by (simp add: G2)
  have sub: "set (map gv_name (take i ?G @ drop (Suc i) ?G)) \<subseteq> set (map gv_name ?G)"
    using set_take_subset [of i ?G] set_drop_subset [of "Suc i" ?G] by auto
  have free: "?nm @ ''_obf'' \<notin> set (map gv_name (take i (GlobalList M2) @ drop (Suc i) (GlobalList M2))
      @ map fn_name (FunctionList M2))"
    using obf sub unfolding others F2 by (auto simp: symbol_names_def c_def)
  have at_i: "GlobalList M2 ! i = g'" using i by (simp add: G2 nth_append)
  have G': "GlobalList M' = ?G[i := g'\<lparr>gv_name := ?nm @ ''_obf''\<rparr>] @ [c]"
    using i free
    by (simp add: M' GV_setName_def Let_def at_i g'_def createValueName_free)
      (simp add: G2 list_update_append g'_def)
  show "gv_name (GlobalList M' ! i) = ?nm @ ''_obf''"
    using i by (simp add: G' nth_append)
  show "gv_name (GlobalList M' ! length ?G) = ?nm @ ''_enc''"
    by (simp add: G' c_def nth_append)
  have F': "FunctionList M' = FunctionList M"
    by (simp add: M' GV_setName_functions F2)
  have "set (?G[i := g'\<lparr>gv_name := ?nm @ ''_obf''\<rparr>])
      \<subseteq> insert (g'\<lparr>gv_name := ?nm @ ''_obf''\<rparr>) (set ?G)"
    by (rule set_update_subset_insert)
  then have "gv_name ` set (?G[i := g'\<lparr>gv_name := ?nm @ ''_obf''\<rparr>])
      \<subseteq> insert (?nm @ ''_obf'') (gv_name ` set ?G)"
    by auto
  then show "set (symbol_names M') \<subseteq>
           insert (?nm @ ''_enc'') (insert (?nm @ ''_obf'') (set (symbol_names M)))"
    by (auto simp: symbol_names_def G' F' c_def)
qed

lemma new_names_Cons:
  "new_names (i # rest) M =
     [gv_name (GlobalList M ! i) @ ''_enc'', gv_name (GlobalList M ! i) @ ''_obf'']
     @ new_names rest M"
  by (simp add: new_names_def)

lemma new_names_cong:
  "(\<And>j. j \<in> set is \<Longrightarrow> gv_name (GlobalList M1 ! j) = gv_name (GlobalList M ! j)) \<Longrightarrow>
   new_names is M1 = new_names is M"
  unfolding new_names_def by (rule arg_cong [where f = concat]) (rule map_cong, simp_all)

lemma encrypt_found_exact:
  assumes "encrypt_found key is st = Inr st'"
    and "distinct is" and "\<forall>i\<in>set is. i < length (GlobalList (ps_module st))"
    and "distinct (new_names is (ps_module st))"
    and "set (new_names is (ps_module st)) \<inter> set (symbol_names (ps_module st)) = {}"
  shows "(\<forall>j\<in>set is. gv_name (GlobalList (ps_module st') ! j)
             = gv_name (GlobalList (ps_module st) ! j) @ ''_obf'')
       \<and> (\<forall>k<length is.
             gv_name (GlobalList (ps_module st') ! (length (GlobalList (ps_module st)) + k))
             = gv_name (GlobalList (ps_module st) ! (is ! k)) @ ''_enc'')"
  using assms
proof (induction "is" arbitrary: st)
  case Nil
  then show ?case by simp
next
  case (Cons i rest)
  let ?M = "ps_module st" and ?G = "GlobalList (ps_module st)"
  let ?e = "gv_name (?G ! i) @ ''_enc''" and ?o = "gv_name (?G ! i) @ ''_obf''"
  from Cons.prems(1) obtain M1 where M1: "encryptString key ?M i = Inr M1"
    and rest: "encrypt_found key rest
        (st\<lparr>ps_module := M1, strings_obf_count := strings_obf_count st + 1\<rparr>) = Inr st'"
    by (auto split: sum.splits)
  define st1 where "st1 = st\<lparr>ps_module := M1, strings_obf_count := strings_obf_count st + 1\<rparr>"
  have m1: "ps_module st1 = M1" by (simp add: st1_def)
  have i: "i < length ?G" using Cons.prems(3) by simp
  have inot: "i \<notin> set rest" and drest: "distinct rest" using Cons.prems(2) by simp_all
  have restlt: "\<And>j. j \<in> set rest \<Longrightarrow> j < length ?G" using Cons.prems(3) by simp
  note fr = encryptString_frame [OF M1 i]
  have efree: "?e \<notin> set (symbol_names ?M)" and ofree: "?o \<notin> set (symbol_names ?M)"
    using Cons.prems(5) by (auto simp: new_names_Cons)
  note ex = encryptString_exact [OF M1 i efree ofree]
  have same: "gv_name (GlobalList M1 ! j) = gv_name (?G ! j)" if "j \<in> set rest" for j
  proof -
    from that inot have "j \<noteq> i" by auto
    with fr(3) [of j] restlt [OF that] show ?thesis by simp
  qed
  have nn: "new_names rest M1 = new_names rest ?M"
    by (rule new_names_cong) (rule same)
  have dn: "distinct (new_names rest ?M)"
    and notin: "?e \<notin> set (new_names rest ?M)" "?o \<notin> set (new_names rest ?M)"
    using Cons.prems(4) by (auto simp: new_names_Cons)
  have disj: "set (new_names rest ?M) \<inter> set (symbol_names ?M) = {}"
    using Cons.prems(5) by (auto simp: new_names_Cons)
  have b1: "\<forall>j\<in>set rest. j < length (GlobalList (ps_module st1))"
    using restlt fr(1) by (auto simp: m1 less_Suc_eq)
  have dn1: "distinct (new_names rest (ps_module st1))" by (simp add: m1 nn dn)
  have disj1: "set (new_names rest (ps_module st1)) \<inter> set (symbol_names (ps_module st1)) = {}"
    using ex(3) notin disj by (auto simp: m1 nn)
  have rest1: "encrypt_found key rest st1 = Inr st'" using rest by (simp add: st1_def)
  from Cons.IH [OF rest1 drest b1 dn1 disj1]
  have ih1: "\<And>j. j \<in> set rest \<Longrightarrow> gv_name (GlobalList (ps_module st') ! j)
             = gv_name (GlobalList M1 ! j) @ ''_obf''"
    and ih2: "\<And>k. k < length rest \<Longrightarrow>
             gv_name (GlobalList (ps_module st') ! (Suc (length ?G) + k))
             = gv_name (GlobalList M1 ! (rest ! k)) @ ''_enc''"
    by (simp_all add: m1 fr(1))
  from encrypt_found_post [OF rest1 drest b1]
  have keep: "\<And>j. j < Suc (length ?G) \<Longrightarrow> j \<notin> set rest \<Longrightarrow>
           GlobalList (ps_module st') ! j = GlobalList M1 ! j"
    by (simp add: found_post_def m1 fr(1))
  have c1: "gv_name (GlobalList (ps_module st') ! j) = gv_name (?G ! j) @ ''_obf''"
    if "j \<in> set (i # rest)" for j
  proof (cases "j = i")
    case True
    then show ?thesis using keep [of i] inot i ex(1) by simp
  next
    case False
    with that have "j \<in> set rest" by simp
    then show ?thesis using ih1 [of j] same [of j] by simp
  qed
  have c2: "gv_name (GlobalList (ps_module st') ! (length ?G + k))
             = gv_name (?G ! ((i # rest) ! k)) @ ''_enc''"
    if "k < length (i # rest)" for k
  proof (cases k)
    case 0
    have "length ?G \<notin> set rest" using restlt by auto
    then show ?thesis using 0 keep [of "length ?G"] ex(2) by simp
  next
    case (Suc k')
    then have k': "k' < length rest" using that by simp
    then have "rest ! k' \<in> set rest" by simp
    then show ?thesis using Suc ih2 [OF k'] same [of "rest ! k'"] by simp
  qed
  show ?case using c1 c2 by blast
qed

text \<open>The same for the pass.\<close>

lemma obfuscateStrings_exact:
  assumes "obfuscateStrings key st = Inr (c, st')"
    and "distinct (new_names (stringGlobals (ps_module st)) (ps_module st))"
    and "set (new_names (stringGlobals (ps_module st)) (ps_module st))
           \<inter> set (symbol_names (ps_module st)) = {}"
  shows "\<forall>j\<in>set (stringGlobals (ps_module st)).
           gv_name (GlobalList (ps_module st') ! j)
             = gv_name (GlobalList (ps_module st) ! j) @ ''_obf''"
    and "\<forall>k<length (stringGlobals (ps_module st)).
           gv_name (GlobalList (ps_module st') ! (length (GlobalList (ps_module st)) + k))
             = gv_name (GlobalList (ps_module st) ! (stringGlobals (ps_module st) ! k)) @ ''_enc''"
proof -
  from assms(1) have ef: "encrypt_found key (stringGlobals (ps_module st)) st = Inr st'"
    by (auto simp: obfuscateStrings_def split: sum.splits)
  have b: "\<forall>i\<in>set (stringGlobals (ps_module st)). i < length (GlobalList (ps_module st))"
    by (simp add: stringGlobals_set)
  note e = encrypt_found_exact [OF ef stringGlobals_distinct b assms(2,3)]
  show "\<forall>j\<in>set (stringGlobals (ps_module st)).
           gv_name (GlobalList (ps_module st') ! j)
             = gv_name (GlobalList (ps_module st) ! j) @ ''_obf''"
    using e by blast
  show "\<forall>k<length (stringGlobals (ps_module st)).
           gv_name (GlobalList (ps_module st') ! (length (GlobalList (ps_module st)) + k))
             = gv_name (GlobalList (ps_module st) ! (stringGlobals (ps_module st) ! k)) @ ''_enc''"
    using e by blast
qed

lemma run_cycle_copy:
  assumes cyc: "run_cycle rnd opts (ch, st) = Inr (ch', st')"
    and k: "k < length (stringGlobals (ps_module st))"
  shows "\<exists>bs. gv_initializer (GlobalList (ps_module st) ! (stringGlobals (ps_module st) ! k))
               = Some (ConstantDataArray bs)
            \<and> isCString bs
            \<and> gv_initializer (GlobalList (ps_module st') ! (length (GlobalList (ps_module st)) + k))
               = Some (encryptedData (XorKey opts) bs)"
proof -
  let ?G = "GlobalList (ps_module st)"
  let ?sg = "stringGlobals (ps_module st)"
  from cyc obtain c1 st1 st2 M3 M4
    where os: "obfuscateStrings (XorKey opts) st = Inr (c1, st1)"
      and st2: "st2 = snd (insertBogusFunctions rnd (BogusCount opts) st1)"
      and M3: "M3 = snd (renamePrivateGlobals (ps_module st2))"
      and M4: "M4 = snd (insertDeadConditionals M3)"
      and st': "st' = st2\<lparr>ps_module := M4, cycles_completed := cycles_completed st2 + 1\<rparr>"
    by (rule run_cycle_InrD)
  from obfuscateStrings_post(1) [OF os] k have
    len: "length (GlobalList (ps_module st1)) = length ?G + length ?sg"
    and cp: "encrypted_copy (XorKey opts) (?G ! (?sg ! k)) (GlobalList (ps_module st1) ! (length ?G + k))"
    by (simp_all add: found_post_def)
  have g2: "GlobalList (ps_module st2) = GlobalList (ps_module st1)"
    using insertBogusFunctions_post [of "BogusCount opts" st1 rnd]
    by (simp add: bogus_post_def st2)
  have lt: "length ?G + k < length (GlobalList (ps_module st2))"
    using k len by (simp add: g2)
  have "gv_initializer (GlobalList M3 ! (length ?G + k))
      = gv_initializer (GlobalList (ps_module st2) ! (length ?G + k))"
    using renamePrivateGlobals_keeps(1) [OF lt] unfolding M3
    by (metis GlobalVariable.select_convs(4) GlobalVariable.surjective GlobalVariable.update_convs(1))
  then have "gv_initializer (GlobalList (ps_module st') ! (length ?G + k))
      = gv_initializer (GlobalList (ps_module st1) ! (length ?G + k))"
    by (simp add: st' M4 insertDeadConditionals_globals g2)
  with cp show ?thesis by (auto simp: encrypted_copy_def)
qed

lemma encrypted_key_free:
  assumes "isCString bs" "word_of_int key \<notin> set (butlast bs)"
  shows "isCString (encrypted_bytes key (butlast bs))"
    and "word_of_int key \<notin> set (butlast (encrypted_bytes key (butlast bs)))"
proof -
  have nz: "0 \<notin> set (butlast bs)" using assms(1) by (simp add: isCString_def)
  have "0 \<notin> set (map (xor_byte key) (butlast bs))"
    using assms(2) by (auto simp: xor_byte_eq_0)
  then show "isCString (encrypted_bytes key (butlast bs))"
    by (simp add: isCString_def encrypted_bytes_def)
  show "word_of_int key \<notin> set (butlast (encrypted_bytes key (butlast bs)))"
  proof
    assume "word_of_int key \<in> set (butlast (encrypted_bytes key (butlast bs)))"
    then obtain x where "x \<in> set (butlast bs)" "xor_byte key x = word_of_int key"
      by (auto simp: encrypted_bytes_def)
    then show False using nz by (simp add: xor_byte_eq_key)
  qed
qed

lemma encryptedData_cases:
  "encryptedData key bs = ConstantDataArray bs' \<Longrightarrow> bs' = encrypted_bytes key (butlast bs)"
  by (simp add: encryptedData_def ConstantDataArray_get_def split: if_splits)

lemma run_cycle_unfound:
  assumes cyc: "run_cycle rnd opts (ch, st) = Inr (ch', st')"
    and j: "j < length (GlobalList (ps_module st))"
    and nf: "j \<notin> set (stringGlobals (ps_module st))"
  shows "j \<notin> set (stringGlobals (ps_module st'))"
    and "gv_initializer (GlobalList (ps_module st') ! j)
           = gv_initializer (GlobalList (ps_module st) ! j)"
    and "j < length (GlobalList (ps_module st'))"
proof -
  from run_cycle_post [OF cyc] j nf have
    eq: "GlobalList (ps_module st') ! j
           = (GlobalList (ps_module st) ! j)\<lparr>gv_name := gv_name (GlobalList (ps_module st') ! j)\<rparr>"
    and len: "length (GlobalList (ps_module st'))
           = length (GlobalList (ps_module st)) + length (stringGlobals (ps_module st))"
    by (simp_all add: cycle_post_def)
  have "is_string_global (GlobalList (ps_module st') ! j)
      = is_string_global (GlobalList (ps_module st) ! j)"
    by (subst eq) (rule is_string_global_name)
  then show "j \<notin> set (stringGlobals (ps_module st'))"
    using nf j by (simp add: stringGlobals_set)
  show "gv_initializer (GlobalList (ps_module st') ! j)
           = gv_initializer (GlobalList (ps_module st) ! j)"
    by (subst eq) simp
  show "j < length (GlobalList (ps_module st'))" using j len by simp
qed

lemma run_cycles_unfound:
  assumes "run_cycles n rnd opts (ch, st) = Inr (ch', st')"
    and "j < length (GlobalList (ps_module st))"
    and "j \<notin> set (stringGlobals (ps_module st))"
  shows "j \<notin> set (stringGlobals (ps_module st'))
       \<and> gv_initializer (GlobalList (ps_module st') ! j)
           = gv_initializer (GlobalList (ps_module st) ! j)"
  using assms
proof (induction n arbitrary: ch st)
  case 0
  then show ?case by simp
next
  case (Suc n)
  from Suc.prems(1) obtain ch1 st1 where c1: "run_cycle rnd opts (ch, st) = Inr (ch1, st1)"
    and rest: "run_cycles n rnd opts (ch1, st1) = Inr (ch', st')"
    by (auto split: sum.splits)
  note u = run_cycle_unfound [OF c1 Suc.prems(2,3)]
  from Suc.IH [OF rest u(3) u(1)] u(2) show ?case by simp
qed

lemma run_cycle_key_free:
  assumes cyc: "run_cycle rnd opts (ch, st) = Inr (ch', st')"
    and kf: "key_free_strings (XorKey opts) (ps_module st)"
  shows "key_free_strings (XorKey opts) (ps_module st')"
  unfolding key_free_strings_def
proof (intro ballI allI impI)
  fix j bs'
  let ?G = "GlobalList (ps_module st)" and ?G' = "GlobalList (ps_module st')"
  let ?sg = "stringGlobals (ps_module st)"
  assume j': "j \<in> set (stringGlobals (ps_module st'))"
    and init': "gv_initializer (?G' ! j) = Some (ConstantDataArray bs')"
  note post = run_cycle_post [OF cyc]
  have len: "length ?G' = length ?G + length ?sg" using post by (simp add: cycle_post_def)
  have jl: "j < length ?G'" using j' by (simp add: stringGlobals_set)
  have "\<exists>bs. isCString bs \<and> word_of_int (XorKey opts) \<notin> set (butlast bs)
      \<and> encryptedData (XorKey opts) bs = ConstantDataArray bs'"
  proof (cases "j < length ?G")
    case True
    have "j \<in> set ?sg"
    proof (rule ccontr)
      assume "j \<notin> set ?sg"
      from run_cycle_unfound(1) [OF cyc True this] j' show False by simp
    qed
    with post have "encrypted_in_place (XorKey opts) (?G ! j) (?G' ! j)"
      by (simp add: cycle_post_def)
    then obtain bs where bs: "gv_initializer (?G ! j) = Some (ConstantDataArray bs)"
      "isCString bs" "gv_initializer (?G' ! j) = Some (encryptedData (XorKey opts) bs)"
      by (auto simp: encrypted_in_place_def)
    from kf \<open>j \<in> set ?sg\<close> bs(1) have "word_of_int (XorKey opts) \<notin> set (butlast bs)"
      by (simp add: key_free_strings_def)
    with bs init' show ?thesis by auto
  next
    case False
    define k where "k = j - length ?G"
    have k: "k < length ?sg" and jk: "j = length ?G + k"
      using False jl len by (simp_all add: k_def)
    from run_cycle_copy [OF cyc k] obtain bs
      where bs: "gv_initializer (?G ! (?sg ! k)) = Some (ConstantDataArray bs)" "isCString bs"
        "gv_initializer (?G' ! (length ?G + k)) = Some (encryptedData (XorKey opts) bs)"
      by blast
    have "?sg ! k \<in> set ?sg" using k by simp
    with kf bs(1) have "word_of_int (XorKey opts) \<notin> set (butlast bs)"
      by (simp add: key_free_strings_def)
    with bs init' jk show ?thesis by auto
  qed
  then obtain bs where bs: "isCString bs" "word_of_int (XorKey opts) \<notin> set (butlast bs)"
    "encryptedData (XorKey opts) bs = ConstantDataArray bs'"
    by blast
  have "bs' = encrypted_bytes (XorKey opts) (butlast bs)"
    by (rule encryptedData_cases [OF bs(3)])
  with encrypted_key_free [OF bs(1,2)]
  show "isCString bs' \<and> word_of_int (XorKey opts) \<notin> set (butlast bs')" by simp
qed

lemma run_cycle_total:
  assumes "key_free_strings (XorKey opts) (ps_module st)"
  shows "\<exists>ch' st'. run_cycle rnd opts (ch, st) = Inr (ch', st')"
proof -
  have "\<forall>i\<in>set (stringGlobals (ps_module st)). \<forall>bs.
             gv_initializer (GlobalList (ps_module st) ! i) = Some (ConstantDataArray bs)
             \<longrightarrow> isCString bs"
    using assms by (simp add: key_free_strings_def)
  from obfuscateStrings_total [OF this, of "XorKey opts"] obtain st1
    where "obfuscateStrings (XorKey opts) st
             = Inr (stringGlobals (ps_module st) \<noteq> [], st1)" by blast
  then show ?thesis by (simp add: run_cycle_def split_beta Let_def)
qed

lemma run_cycles_total:
  assumes "key_free_strings (XorKey opts) (ps_module st)"
  shows "\<exists>ch' st'. run_cycles n rnd opts (ch, st) = Inr (ch', st')"
  using assms
proof (induction n arbitrary: ch st)
  case 0
  then show ?case by simp
next
  case (Suc n)
  from run_cycle_total [OF Suc.prems, of rnd ch] obtain ch1 st1
    where c1: "run_cycle rnd opts (ch, st) = Inr (ch1, st1)" by blast
  from Suc.IH [OF run_cycle_key_free [OF c1 Suc.prems], of ch1] c1
  show ?case by simp
qed

lemma error_is_assertion: "(e :: error) = AssertionFailed"
  by (cases e) simp

lemma encryptString_not_CString:
  assumes "gv_initializer (GlobalList M ! i) = Some (ConstantDataArray bs)" "\<not> isCString bs"
  shows "encryptString key M i = Inl AssertionFailed"
  using assms by (simp add: encryptString_def getAsCString_def)

lemma encrypt_found_fails:
  assumes "i \<in> set is" "distinct is" "\<forall>j\<in>set is. j < length (GlobalList (ps_module st))"
    and "gv_initializer (GlobalList (ps_module st) ! i) = Some (ConstantDataArray bs)"
    and "\<not> isCString bs"
  shows "encrypt_found key is st = Inl AssertionFailed"
  using assms
proof (induction "is" arbitrary: st)
  case Nil
  then show ?case by simp
next
  case (Cons h rest)
  show ?case
  proof (cases "h = i")
    case True
    then show ?thesis
      using encryptString_not_CString [OF Cons.prems(4,5), of key] by simp
  next
    case False
    with Cons.prems(1) have irest: "i \<in> set rest" by simp
    show ?thesis
    proof (cases "encryptString key (ps_module st) h")
      case (Inl e)
      then show ?thesis by (simp add: error_is_assertion [of e])
    next
      case (Inr M1)
      have h: "h < length (GlobalList (ps_module st))" using Cons.prems(3) by simp
      note fr = encryptString_frame [OF Inr h]
      define st1 where "st1 = st\<lparr>ps_module := M1, strings_obf_count := strings_obf_count st + 1\<rparr>"
      have i: "i < length (GlobalList (ps_module st))" using Cons.prems(3) irest by simp
      have b1: "\<forall>j\<in>set rest. j < length (GlobalList (ps_module st1))"
        using Cons.prems(3) fr(1) by (auto simp: st1_def less_Suc_eq)
      have init1: "gv_initializer (GlobalList (ps_module st1) ! i) = Some (ConstantDataArray bs)"
        using fr(3) [OF i] False Cons.prems(4) by (simp add: st1_def)
      have "encrypt_found key rest st1 = Inl AssertionFailed"
        using Cons.IH [OF irest _ b1 init1 Cons.prems(5)] Cons.prems(2) by simp
      then show ?thesis using Inr by (simp add: st1_def)
    qed
  qed
qed

lemma run_cycle_fails:
  assumes "i \<in> set (stringGlobals (ps_module st))"
    and "gv_initializer (GlobalList (ps_module st) ! i) = Some (ConstantDataArray bs)"
    and "\<not> isCString bs"
  shows "run_cycle rnd opts (ch, st) = Inl AssertionFailed"
proof -
  have "encrypt_found (XorKey opts) (stringGlobals (ps_module st)) st = Inl AssertionFailed"
    by (rule encrypt_found_fails [OF assms(1) stringGlobals_distinct _ assms(2,3)])
      (simp add: stringGlobals_set)
  then show ?thesis by (simp add: run_cycle_def obfuscateStrings_def)
qed

lemma encryptedData_all_key:
  assumes "isCString bs" "set (butlast bs) \<subseteq> {word_of_int key}"
  shows "encryptedData key bs = ConstantAggregateZero (length bs)"
proof -
  have "list_all (\<lambda>b. b = 0) (map (xor_byte key) (butlast bs))"
    using assms(2) by (auto simp: list_all_iff xor_byte_eq_0)
  then have "list_all (\<lambda>b. b = 0) (encrypted_bytes key (butlast bs))"
    by (simp add: encrypted_bytes_def)
  moreover have "length (encrypted_bytes key (butlast bs)) = length bs"
    using assms(1) by (simp add: encrypted_bytes_def isCString_def)
  ultimately show ?thesis by (simp add: encryptedData_def ConstantDataArray_get_def)
qed

lemma encrypted_not_CString:
  assumes "word_of_int key \<in> set (butlast bs)"
  shows "\<not> isCString (encrypted_bytes key (butlast bs))"
proof -
  have "xor_byte key (word_of_int key) = 0" by (simp add: xor_byte_eq_0)
  then have "0 \<in> set (map (xor_byte key) (butlast bs))"
    using assms by force
  then show ?thesis by (simp add: isCString_def encrypted_bytes_def)
qed

lemma run_cycle_nonpositive_bogus:
  assumes "BogusCount opts \<le> 0"
  shows "run_cycle rnd opts cs = run_cycle rnd (opts\<lparr>BogusCount := 0\<rparr>) cs"
proof -
  have eq: "insertBogusFunctions rnd (BogusCount opts) s
      = insertBogusFunctions rnd (BogusCount (opts\<lparr>BogusCount := 0\<rparr>)) s" for s
    using assms by (simp add: insertBogusFunctions_none)
  show ?thesis
    by (cases cs) (simp add: run_cycle_def eq cong: sum.case_cong)
qed

lemma run_cycles_nonpositive_bogus:
  assumes "BogusCount opts \<le> 0"
  shows "run_cycles n rnd opts cs = run_cycles n rnd (opts\<lparr>BogusCount := 0\<rparr>) cs"
proof (induction n arbitrary: cs)
  case 0
  show ?case by simp
next
  case (Suc n)
  show ?case
    by (simp add: run_cycle_nonpositive_bogus [OF assms, symmetric] Suc.IH split: sum.splits)
qed

lemma insert_bogus_name:
  "prefix (''bogus_func_'' @ to_string i @ ''_'' @ to_string (rnd (rand_calls s) mod 10000))
     (fn_name (last (FunctionList (ps_module (insert_bogus rnd i s)))))"
  by (simp add: insert_bogus_def Let_def Function_Create_functions createValueName_prefix)

lemma insert_bogus_name_free:
  assumes "''bogus_func_'' @ to_string i @ ''_'' @ to_string (rnd (rand_calls s) mod 10000)
             \<notin> set (symbol_names (ps_module s))"
  shows "fn_name (last (FunctionList (ps_module (insert_bogus rnd i s))))
           = ''bogus_func_'' @ to_string i @ ''_'' @ to_string (rnd (rand_calls s) mod 10000)"
  using assms by (simp add: insert_bogus_def Let_def Function_Create_functions createValueName_free)

lemma fold_insert_bogus_counts:
  "rand_calls (fold (insert_bogus rnd) is s) = rand_calls s + length is
   \<and> length (FunctionList (ps_module (fold (insert_bogus rnd) is s)))
       = length (FunctionList (ps_module s)) + length is"
proof -
  from fold_insert_bogus_post [of "is" s rnd]
  obtain news where "length news = length is"
    and "map fn_name (FunctionList (ps_module (fold (insert_bogus rnd) is s)))
           = map fn_name (FunctionList (ps_module s)) @ news"
    and rc: "rand_calls (fold (insert_bogus rnd) is s) = rand_calls s + length is"
    by (auto simp: bogus_post_def adds_functions_def)
  then have "length (map fn_name (FunctionList (ps_module (fold (insert_bogus rnd) is s))))
      = length (map fn_name (FunctionList (ps_module s)) @ news)" by simp
  then show ?thesis using rc \<open>length news = length is\<close> by simp
qed

lemma fold_insert_bogus_name:
  "k < n \<Longrightarrow>
   prefix (bogus_name rnd k (rand_calls s + k))
     (fn_name (FunctionList (ps_module (fold (insert_bogus rnd) [0..<n] s))
        ! (length (FunctionList (ps_module s)) + k)))"
proof (induction n)
  case 0
  then show ?case by simp
next
  case (Suc n)
  let ?s = "fold (insert_bogus rnd) [0..<n] s"
  have cnt: "rand_calls ?s = rand_calls s + n"
    "length (FunctionList (ps_module ?s)) = length (FunctionList (ps_module s)) + n"
    using fold_insert_bogus_counts [of rnd "[0..<n]" s] by simp_all
  have step: "fold (insert_bogus rnd) [0..<Suc n] s = insert_bogus rnd n ?s" by simp
  have fl: "FunctionList (ps_module (insert_bogus rnd n ?s))
      = FunctionList (ps_module ?s)
        @ [\<lparr>fn_name = fst (createValueName (symbol_names (ps_module ?s))
                          (bogus_name rnd n (rand_calls ?s)) (LastUnique (ps_module ?s))),
            fn_linkage = PrivateLinkage, fn_blocks = [bogus_entry n]\<rparr>]"
    by (simp add: insert_bogus_def Let_def Function_Create_functions bogus_name_def)
  show ?case
  proof (cases "k = n")
    case True
    then show ?thesis
      unfolding step fl by (simp add: cnt nth_append createValueName_prefix)
  next
    case False
    with Suc.prems have "k < n" by simp
    from Suc.IH [OF this] \<open>k < n\<close> show ?thesis
      unfolding step fl by (simp add: cnt nth_append)
  qed
qed

lemma insertBogusFunctions_name:
  "k < nat B \<Longrightarrow>
   prefix (bogus_name rnd k (rand_calls s + k))
     (fn_name (FunctionList (ps_module (snd (insertBogusFunctions rnd B s)))
        ! (length (FunctionList (ps_module s)) + k)))"
  using fold_insert_bogus_name [of k "nat B" rnd s] by (simp add: insertBogusFunctions_def)

lemma insert_bogus_exact:
  assumes "bogus_name rnd i (rand_calls s) \<notin> set (symbol_names (ps_module s))"
  shows "fn_name (last (FunctionList (ps_module (insert_bogus rnd i s))))
           = bogus_name rnd i (rand_calls s)"
  using assms insert_bogus_name_free [of i rnd s] by (simp add: bogus_name_def)

lemma to_string_two: "to_string (Suc (Suc 0)) = ''2''"
  by (simp add: to_string.simps [of "Suc (Suc 0)"])

lemma zero_initializer_not_string:
  "gv_initializer g = Some (ConstantAggregateZero n) \<Longrightarrow> \<not> is_string_global g"
  by (simp add: is_string_global_def)

lemma empty_string_stringGlobals: "stringGlobals empty_string_module = []"
  by (simp add: stringGlobals_def empty_string_module_def string_constant_def is_string_global_def)

lemma empty_string_cycle:
  assumes "BogusCount opts \<le> 0"
  shows "run_cycle rnd opts (False, initial empty_string_module) =
     Inr (False, (initial empty_string_module)\<lparr>cycles_completed := 1\<rparr>)"
proof -
  have os: "obfuscateStrings (XorKey opts) (initial empty_string_module)
      = Inr (False, initial empty_string_module)"
    by (simp add: obfuscateStrings_def initial_def empty_string_stringGlobals)
  have ib: "insertBogusFunctions rnd (BogusCount opts) (initial empty_string_module)
      = (False, initial empty_string_module)"
    by (rule insertBogusFunctions_none [OF assms])
  have rn: "renamePrivateGlobals (ps_module (initial empty_string_module))
      = (False, empty_string_module)"
    by (simp add: initial_def renamePrivateGlobals_def toRename_def empty_string_module_def
        string_constant_def)
  have dc: "insertDeadConditionals empty_string_module = (False, empty_string_module)"
    by (rule no_functions_no_dead_conditional) (simp add: empty_string_module_def)
  show ?thesis
    using run_cycle_steps [OF os ib rn dc, of False] by (simp add: initial_def)
qed

lemma obfuscateStrings_fails:
  assumes "i \<in> set (stringGlobals (ps_module st))"
    and "gv_initializer (GlobalList (ps_module st) ! i) = Some (ConstantDataArray bs)"
    and "\<not> isCString bs"
  shows "obfuscateStrings key st = Inl AssertionFailed"
proof -
  have "encrypt_found key (stringGlobals (ps_module st)) st = Inl AssertionFailed"
    using assms stringGlobals_set [of "ps_module st"] stringGlobals_distinct [of "ps_module st"]
    by (intro encrypt_found_fails [of i _ _ bs]) auto
  then show ?thesis by (simp add: obfuscateStrings_def)
qed

lemma raw_obfuscateStrings: "obfuscateStrings key (initial raw_module) = Inl AssertionFailed"
proof -
  have sg: "stringGlobals raw_module = [0, 1]"
    by (simp add: stringGlobals_def raw_module_def string_constant_def is_string_global_def)
  have bs: "gv_initializer (GlobalList (ps_module (initial raw_module)) ! 1)
      = Some (ConstantDataArray [0x41, 0x42])"
    by (simp add: initial_def raw_module_def string_constant_def)
  have cs: "\<not> isCString [0x41, 0x42 :: 8 word]" by (simp add: isCString_def)
  have i: "1 \<in> set (stringGlobals (ps_module (initial raw_module)))"
    by (simp add: initial_def sg)
  show ?thesis by (rule obfuscateStrings_fails [OF i bs cs])
qed

lemma taken_stringGlobals: "stringGlobals taken_module = [0]"
  by (simp add: stringGlobals_def taken_module_def string_constant_def is_string_global_def
      external_declaration_def)

lemma taken_encryptString:
  "encryptString key taken_module 0
     = Inr (taken_encrypted (encryptedData key [0x41, 0x42, 0x43, 0x00]))"
proof -
  have bs: "gv_initializer (GlobalList taken_module ! 0)
              = Some (ConstantDataArray [0x41, 0x42, 0x43, 0x00])"
    by (simp add: taken_module_def string_constant_def)
  have cs: "isCString [0x41, 0x42, 0x43, 0x00 :: 8 word]"
    by (simp add: isCString_def)
  have lt: "0 < length (GlobalList taken_module)" by (simp add: taken_module_def)
  show ?thesis
    unfolding encryptString_Inr [OF lt bs cs]
    by (simp add: taken_module_def taken_encrypted_def string_constant_def
        external_declaration_def new_GlobalVariable_def
        GV_setInitializer_def GV_setName_def symbol_names_def createValueName_taken
        unique_candidate_def to_string_small to_string_two)
qed

lemma taken_obfuscateStrings:
  "obfuscateStrings key (initial taken_module) =
     Inr (True, (initial (taken_encrypted (encryptedData key [0x41, 0x42, 0x43, 0x00])))
                  \<lparr>strings_obf_count := 1\<rparr>)"
  using taken_encryptString [of key]
  by (simp add: obfuscateStrings_def taken_stringGlobals initial_def)

lemma ab_obfuscateStrings:
  "obfuscateStrings 0x41 (initial ab_module) =
     Inr (True, (initial ab_encrypted)\<lparr>strings_obf_count := 1\<rparr>)"
proof -
  have sg: "stringGlobals ab_module = [0]"
    by (simp add: stringGlobals_def ab_module_def string_constant_def is_string_global_def)
  have bs: "gv_initializer (GlobalList ab_module ! 0) = Some (ConstantDataArray [0x41, 0x42, 0x00])"
    by (simp add: ab_module_def string_constant_def)
  have cs: "isCString [0x41, 0x42, 0x00 :: 8 word]" by (simp add: isCString_def)
  have lt: "0 < length (GlobalList ab_module)" by (simp add: ab_module_def)
  have enc: "encryptedData 0x41 [0x41, 0x42, 0x00] = ConstantDataArray [0x00, 0x03, 0x00]"
    by (simp add: encryptedData_def encrypted_bytes_def xor_byte_def ConstantDataArray_get_def)
  have "encryptString 0x41 ab_module 0 = Inr ab_encrypted"
    unfolding encryptString_Inr [OF lt bs cs] enc
    by (simp add: ab_module_def ab_encrypted_def string_constant_def new_GlobalVariable_def
        GV_setInitializer_def GV_setName_def symbol_names_def createValueName_free)
  then show ?thesis
    by (simp add: obfuscateStrings_def sg initial_def)
qed

lemma ab_two_cycles:
  "runOnModule rand_sevens \<lparr>XorKey = 0x41, BogusCount = 0, Cycles = 2\<rparr> (initial ab_module)
     = Inl AssertionFailed"
proof -
  let ?opts = "\<lparr>XorKey = 0x41, BogusCount = 0, Cycles = 2\<rparr>"
  let ?st1 = "(initial ab_encrypted)\<lparr>strings_obf_count := 1\<rparr>"
  let ?st1' = "(initial ab_encrypted)\<lparr>strings_obf_count := 1, cycles_completed := 1\<rparr>"
  have os1: "obfuscateStrings (XorKey ?opts) (initial ab_module) = Inr (True, ?st1)"
    using ab_obfuscateStrings by simp
  have ib1: "insertBogusFunctions rand_sevens (BogusCount ?opts) ?st1 = (False, ?st1)"
    by (rule insertBogusFunctions_none) simp
  have rn1: "renamePrivateGlobals (ps_module ?st1) = (False, ab_encrypted)"
    by (simp add: initial_def renamePrivateGlobals_def toRename_def ab_encrypted_def
        string_constant_def endswith_def)
  have dc: "insertDeadConditionals ab_encrypted = (False, ab_encrypted)"
    by (rule no_functions_no_dead_conditional) (simp add: ab_encrypted_def)
  have cyc1: "run_cycle rand_sevens ?opts (False, initial ab_module) = Inr (True, ?st1')"
    using run_cycle_steps [OF os1 ib1 rn1 dc, of False] by (simp add: initial_def)
  have i: "0 \<in> set (stringGlobals (ps_module ?st1'))"
    by (simp add: initial_def stringGlobals_def ab_encrypted_def string_constant_def
        is_string_global_def)
  have bs: "gv_initializer (GlobalList (ps_module ?st1') ! 0)
      = Some (ConstantDataArray [0x00, 0x03, 0x00])"
    by (simp add: initial_def ab_encrypted_def string_constant_def)
  have cs: "\<not> isCString [0x00, 0x03, 0x00 :: 8 word]" by (simp add: isCString_def)
  have cyc2: "run_cycle rand_sevens ?opts (True, ?st1') = Inl AssertionFailed"
    by (rule run_cycle_fails [OF i bs cs])
  have n: "nat (Cycles ?opts) = Suc (Suc 0)" by simp
  show ?thesis
    unfolding runOnModule_def n
    by (simp only: run_cycles.simps cyc1 cyc2 sum.case)
qed

lemma run_cycles_key_free:
  assumes "run_cycles n rnd opts (ch, st) = Inr (ch', st')"
    and "key_free_strings (XorKey opts) (ps_module st)"
  shows "key_free_strings (XorKey opts) (ps_module st')"
  using assms
proof (induction n arbitrary: ch st)
  case 0
  then show ?case by simp
next
  case (Suc n)
  from Suc.prems(1) obtain ch1 st1 where c1: "run_cycle rnd opts (ch, st) = Inr (ch1, st1)"
    and rest: "run_cycles n rnd opts (ch1, st1) = Inr (ch', st')"
    by (auto split: sum.splits)
  show ?case
    by (rule Suc.IH [OF rest run_cycle_key_free [OF c1 Suc.prems(2)]])
qed

lemma key_free_stringD:
  assumes "key_free_strings key M" "i \<in> set (stringGlobals M)"
    and "gv_initializer (GlobalList M ! i) = Some (ConstantDataArray bs)"
  shows "isCString bs" and "word_of_int key \<notin> set (butlast bs)"
  using assms by (auto simp: key_free_strings_def)

lemma demo_key_free: "key_free_strings 0xAA demo_module"
  by (simp add: key_free_strings_def demo_stringGlobals)
     (simp add: demo_module_def string_constant_def isCString_def)

lemma demo_new_names: "new_names (stringGlobals demo_module) demo_module = [''.str_enc'', ''.str_obf'']"
  by (simp add: new_names_def demo_stringGlobals) (simp add: demo_module_def string_constant_def)

lemma demo_symbol_names: "symbol_names demo_module = [''.str'', ''banner'']"
  by (simp add: symbol_names_def demo_module_def string_constant_def)

lemma funpow_two: "(f ^^ 2) x = f (f x)"
  by (simp add: numeral_2_eq_2)

lemma encrypt_demo_twice:
  "((\<lambda>b. encrypted_bytes 0xAA (butlast b)) ^^ 2) [0x41, 0x42, 0x43, 0x00]
     = [0x41, 0x42, 0x43, 0x00]"
  by (simp add: funpow_two encrypted_bytes_def xor_byte_def)

subsection \<open>Theorems\<close>

text \<open>
  C1. The claim: every byte of the payload of an eligible string constant, the terminator
  included, is replaced by the byte XOR the low byte of the key, so that \<^verbatim>\<open>"ABC"\<close> with
  the key \<^verbatim>\<open>0xAA\<close> becomes \<^verbatim>\<open>EB E8 E9 AA\<close> after one cycle, under a name that carries the
  old name and the suffix. The code XORs the characters and then pushes a plain zero
  (\<^verbatim>\<open>encrypted.push_back(0)\<close>, commented "also encrypted"): after one cycle the payload is
  \<^verbatim>\<open>EB E8 E9 00\<close>, and for every key and every string the last byte of the encrypted
  vector is 0. The name is \<^verbatim>\<open>.str_obf\<close>, as the claim says.
\<close>

theorem terminator_not_encrypted:
  "runOnModule rnd \<lparr>XorKey = 0xAA, BogusCount = 0, Cycles = 1\<rparr> (initial demo_module) =
     Inr (True, (initial demo_encrypted)\<lparr>strings_obf_count := 1, cycles_completed := 1\<rparr>)
   \<and> gv_initializer (GlobalList demo_module ! 0)
       = Some (ConstantDataArray [0x41, 0x42, 0x43, 0x00])
   \<and> GlobalList demo_encrypted ! 0
       = string_constant ''.str_obf'' PrivateLinkage (ConstantDataArray [0xEB, 0xE8, 0xE9, 0x00])
   \<and> (\<forall>key originalStr. last (encrypted_bytes key originalStr) = 0)"
proof -
  have "run_cycle rnd \<lparr>XorKey = 0xAA, BogusCount = 0, Cycles = 1\<rparr> (False, initial demo_module) =
     Inr (True, (initial demo_encrypted)\<lparr>strings_obf_count := 1, cycles_completed := 1\<rparr>)"
    by (rule demo_cycle) simp_all
  then show ?thesis
    by (simp add: runOnModule_def demo_module_def demo_encrypted_def string_constant_def
        encrypted_bytes_def)
qed

text \<open>
  C2. The claim: after the Dead-Branch Inserter has run on a function, the continuation
  block leads to what followed the entry block, not to the entry block, and the function
  returns what it returned before. In the code the continuation block branches to the
  entry block, whose first instruction now branches to the continuation block: for a
  function \<^verbatim>\<open>main\<close> that returns 0, the blocks after the pass are as stated, and the
  function, which returned 0 in one step, no longer returns with any amount of fuel.
  The same holds of every function with an entry block, whatever its blocks and its
  arguments: once modified it never returns.
\<close>

theorem dead_conditional_loops_forever:
  "insertDeadConditionals main_module =
     (True, main_module\<lparr>FunctionList :=
        [main_function\<lparr>fn_blocks :=
           [[CondBr (ConstantInt 1 0) 1 2, Ret (ConstantInt 32 0)], [Br 2], [Br 0]]\<rparr>]\<rparr>)
   \<and> run_function 1 main_function [] = Returned 0
   \<and> (\<forall>fuel. run_function fuel
                (hd (FunctionList (snd (insertDeadConditionals main_module)))) [] = OutOfFuel)
   \<and> (\<forall>F EntryBB blocks fuel args.
         run_function fuel (add_dead_conditional (F\<lparr>fn_blocks := EntryBB # blocks\<rparr>)) args
           = OutOfFuel)"
proof -
  have a: "insertDeadConditionals main_module =
     (True, main_module\<lparr>FunctionList :=
        [main_function\<lparr>fn_blocks :=
           [[CondBr (ConstantInt 1 0) 1 2, Ret (ConstantInt 32 0)], [Br 2], [Br 0]]\<rparr>]\<rparr>)"
    by (simp add: main_module_def main_function_def insertDeadConditionals_def isDeclaration_def
        startswith_def add_dead_conditional_def CreateICmpEQ_def)
  have b: "run_function 1 main_function [] = Returned 0"
    by (simp add: run_function_def main_function_def)
  have c: "hd (FunctionList (snd (insertDeadConditionals main_module)))
      = add_dead_conditional main_function"
    by (simp add: main_module_def main_function_def insertDeadConditionals_def isDeclaration_def
        startswith_def)
  have "fn_blocks main_function \<noteq> []" by (simp add: main_function_def)
  from dead_conditional_never_returns [OF this]
  have d: "\<forall>fuel. run_function fuel (add_dead_conditional main_function) [] = OutOfFuel"
    by (simp add: run_function_def)
  have e: "run_function fuel (add_dead_conditional (F\<lparr>fn_blocks := EntryBB # blocks\<rparr>)) args
           = OutOfFuel" for F :: Function and EntryBB blocks fuel args
  proof -
    have "fn_blocks (F\<lparr>fn_blocks := EntryBB # blocks\<rparr>) \<noteq> []" by simp
    from dead_conditional_never_returns [OF this] show ?thesis
      by (simp add: run_function_def)
  qed
  from a b c d e show ?thesis by simp
qed

text \<open>
  C3, as claimed, fails: the claim has a new random suffix drawn when a generated name
  exists already. With \<^verbatim>\<open>rand()\<close> returning 7 twice, one bogus function per cycle and two
  cycles, the second function is asked the name of the first; \<^verbatim>\<open>rand()\<close> has been called
  twice in all, once per function, and the second function has the name of the first
  followed by \<^verbatim>\<open>.1\<close>, which the symbol table of the module gave it.
\<close>

theorem colliding_name_is_not_redrawn:
  "runOnModule rand_sevens \<lparr>XorKey = 170, BogusCount = 1, Cycles = 2\<rparr> (initial empty_module) =
     Inr (True, (initial two_bogus)\<lparr>fake_funcs_inserted := 2, cycles_completed := 2,
                                     rand_calls := 2\<rparr>)
   \<and> map fn_name (FunctionList two_bogus) = [''bogus_func_0_7'', ''bogus_func_0_7.1'']"
  using empty_two_cycles by (simp add: two_bogus_def bogus_function_def)

text \<open>
  C3, amended. For every run that completes, with \<^verbatim>\<open>cycles = C\<close> and \<^verbatim>\<open>bogusCount = B\<close>,
  neither negative: exactly \<open>C * B\<close> functions are appended to the functions of the module;
  their names are pairwise distinct and none is the name of a function that was there
  before; the counter of inserted functions (32 bits) increases by \<open>C * B\<close>; and \<^verbatim>\<open>rand()\<close> is
  called exactly \<open>C * B\<close> times, once per function: no suffix is drawn again. Each call of
  \<^verbatim>\<open>insertBogusFunctions\<close>, in any state, does the same for \<open>B\<close> functions, and the function
  that it appends in iteration \<open>k\<close> has a name that begins with \<^verbatim>\<open>bogus_func_k_r\<close>, where
  \<open>r\<close> is the value of the one call of \<^verbatim>\<open>rand()\<close> of that iteration, modulo 10000. An
  iteration \<open>i\<close> of the loop, in any state, gives the function exactly the name
  \<^verbatim>\<open>bogus_func_i_r\<close> when that is not yet a name of the module.
\<close>

theorem bogus_functions_added:
  assumes "runOnModule rnd opts st = Inr (changed, st')"
    and "0 \<le> Cycles opts" and "0 \<le> BogusCount opts"
  shows "adds_functions (ps_module st) (ps_module st') (nat (Cycles opts * BogusCount opts))
     \<and> fake_funcs_inserted st'
         = fake_funcs_inserted st + of_nat (nat (Cycles opts * BogusCount opts))
     \<and> rand_calls st' = rand_calls st + nat (Cycles opts * BogusCount opts)
     \<and> (\<forall>s. adds_functions (ps_module s)
                (ps_module (snd (insertBogusFunctions rnd (BogusCount opts) s)))
                (nat (BogusCount opts))
              \<and> fake_funcs_inserted (snd (insertBogusFunctions rnd (BogusCount opts) s))
                  = fake_funcs_inserted s + of_nat (nat (BogusCount opts))
              \<and> rand_calls (snd (insertBogusFunctions rnd (BogusCount opts) s))
                  = rand_calls s + nat (BogusCount opts))
     \<and> (\<forall>s k. k < nat (BogusCount opts) \<longrightarrow>
           prefix (bogus_name rnd k (rand_calls s + k))
             (fn_name (FunctionList (ps_module (snd (insertBogusFunctions rnd (BogusCount opts) s)))
                ! (length (FunctionList (ps_module s)) + k))))
     \<and> (\<forall>s i. bogus_name rnd i (rand_calls s) \<notin> set (symbol_names (ps_module s)) \<longrightarrow>
           fn_name (last (FunctionList (ps_module (insert_bogus rnd i s))))
             = bogus_name rnd i (rand_calls s))"
proof -
  have "adds_functions (ps_module st) (ps_module st') (nat (Cycles opts * BogusCount opts))
     \<and> fake_funcs_inserted st'
         = fake_funcs_inserted st + of_nat (nat (Cycles opts * BogusCount opts))
     \<and> rand_calls st' = rand_calls st + nat (Cycles opts * BogusCount opts)"
    using run_cycles_functions [of "nat (Cycles opts)" rnd opts False st changed st'] assms
    by (simp add: runOnModule_def nat_mult_distrib)
  moreover have "adds_functions (ps_module s)
                (ps_module (snd (insertBogusFunctions rnd (BogusCount opts) s)))
                (nat (BogusCount opts))
              \<and> fake_funcs_inserted (snd (insertBogusFunctions rnd (BogusCount opts) s))
                  = fake_funcs_inserted s + of_nat (nat (BogusCount opts))
              \<and> rand_calls (snd (insertBogusFunctions rnd (BogusCount opts) s))
                  = rand_calls s + nat (BogusCount opts)" for s
    using insertBogusFunctions_post [of "BogusCount opts" s rnd] by (simp add: bogus_post_def)
  moreover have "k < nat (BogusCount opts) \<longrightarrow>
           prefix (bogus_name rnd k (rand_calls s + k))
             (fn_name (FunctionList (ps_module (snd (insertBogusFunctions rnd (BogusCount opts) s)))
                ! (length (FunctionList (ps_module s)) + k)))" for s k
    using insertBogusFunctions_name [of k "BogusCount opts" rnd s] by blast
  moreover have "bogus_name rnd i (rand_calls s) \<notin> set (symbol_names (ps_module s)) \<longrightarrow>
           fn_name (last (FunctionList (ps_module (insert_bogus rnd i s))))
             = bogus_name rnd i (rand_calls s)" for s i
    using insert_bogus_exact [of rnd i s] by blast
  ultimately show ?thesis by blast
qed

theorem bogus_functions_added_witness:
  "runOnModule rand_sevens \<lparr>XorKey = 170, BogusCount = 1, Cycles = 2\<rparr> (initial empty_module) =
     Inr (True, (initial two_bogus)\<lparr>fake_funcs_inserted := 2, cycles_completed := 2,
                                     rand_calls := 2\<rparr>)
   \<and> (0::int) \<le> 2 \<and> (0::int) \<le> 1
   \<and> adds_functions empty_module two_bogus 2
   \<and> (0::nat) < nat 1
   \<and> bogus_name rand_sevens 0 0 = ''bogus_func_0_7''
   \<and> ''bogus_func_0_7'' \<notin> set (symbol_names empty_module)
   \<and> prefix ''bogus_func_0_7'' (fn_name (FunctionList one_bogus ! 0))
   \<and> fn_name (last (FunctionList (ps_module (insert_bogus rand_sevens 0 (initial empty_module)))))
       = ''bogus_func_0_7''"
proof -
  let ?opts = "\<lparr>XorKey = 170, BogusCount = 1, Cycles = 2\<rparr>"
  note t = bogus_functions_added [OF empty_two_cycles]
  have bn: "bogus_name rand_sevens 0 0 = ''bogus_func_0_7''"
    by (simp add: bogus_name_def rand_sevens_def to_string_small)
  have free: "''bogus_func_0_7'' \<notin> set (symbol_names empty_module)"
    by (simp add: symbol_names_def empty_module_def)
  have a: "adds_functions empty_module two_bogus 2"
    using t by (simp add: initial_def)
  have b: "prefix ''bogus_func_0_7'' (fn_name (FunctionList one_bogus ! 0))"
    using t [THEN conjunct2, THEN conjunct2, THEN conjunct2, THEN conjunct2,
        THEN conjunct1, rule_format, where k = 0 and s = "initial empty_module"]
    by (simp add: insert_first_bogus) (simp add: initial_def empty_module_def bn)
  have c: "fn_name (last (FunctionList (ps_module (insert_bogus rand_sevens 0
              (initial empty_module))))) = ''bogus_func_0_7''"
    using t [THEN conjunct2, THEN conjunct2, THEN conjunct2, THEN conjunct2,
        THEN conjunct2, rule_format, where i = 0 and s = "initial empty_module"] free
    by (simp add: initial_def bn)
  from empty_two_cycles a bn free b c show ?thesis by simp
qed

text \<open>
  C4, as claimed, fails: the claim has a negative \<^verbatim>\<open>bogusCount\<close> rejected before any pass
  runs. With \<^verbatim>\<open>bogusCount = -1\<close> and one cycle the run completes, reports a change, and has
  encrypted and renamed the string constant of the module.
\<close>

theorem negative_bogus_count_not_rejected:
  "runOnModule rand_sevens \<lparr>XorKey = 0xAA, BogusCount = - 1, Cycles = 1\<rparr> (initial demo_module) =
     Inr (True, (initial demo_encrypted)\<lparr>strings_obf_count := 1, cycles_completed := 1\<rparr>)
   \<and> demo_encrypted \<noteq> demo_module"
proof -
  have "run_cycle rand_sevens \<lparr>XorKey = 0xAA, BogusCount = - 1, Cycles = 1\<rparr> (False, initial demo_module) =
     Inr (True, (initial demo_encrypted)\<lparr>strings_obf_count := 1, cycles_completed := 1\<rparr>)"
    by (rule demo_cycle) simp_all
  then show ?thesis
    by (simp add: runOnModule_def demo_module_def demo_encrypted_def)
qed

text \<open>
  C4, amended. When \<^verbatim>\<open>cycles\<close> is zero or negative no pass executes: the run completes
  without an error, reports no change, and leaves the module and the counters as they
  were. When \<^verbatim>\<open>bogusCount\<close> is zero or negative, \<^verbatim>\<open>insertBogusFunctions\<close> adds nothing and
  reports no change, and every cycle and the whole run give exactly the result that they
  give with \<^verbatim>\<open>bogusCount = 0\<close>: the other passes run as they do then.
\<close>

theorem no_validation_of_options:
  "(Cycles opts \<le> 0 \<longrightarrow> runOnModule rnd opts st = Inr (False, st))
   \<and> (BogusCount opts \<le> 0 \<longrightarrow>
        insertBogusFunctions rnd (BogusCount opts) st = (False, st)
        \<and> run_cycle rnd opts (ch, st) = run_cycle rnd (opts\<lparr>BogusCount := 0\<rparr>) (ch, st)
        \<and> runOnModule rnd opts st = runOnModule rnd (opts\<lparr>BogusCount := 0\<rparr>) st)"
proof (intro conjI impI)
  assume "Cycles opts \<le> 0"
  then show "runOnModule rnd opts st = Inr (False, st)" by (simp add: runOnModule_def)
next
  assume "BogusCount opts \<le> 0"
  then show "insertBogusFunctions rnd (BogusCount opts) st = (False, st)"
    by (rule insertBogusFunctions_none)
next
  assume "BogusCount opts \<le> 0"
  then show "run_cycle rnd opts (ch, st) = run_cycle rnd (opts\<lparr>BogusCount := 0\<rparr>) (ch, st)"
    by (rule run_cycle_nonpositive_bogus)
next
  assume "BogusCount opts \<le> 0"
  then show "runOnModule rnd opts st = runOnModule rnd (opts\<lparr>BogusCount := 0\<rparr>) st"
    using run_cycles_nonpositive_bogus [of opts "nat (Cycles opts)" rnd "(False, st)"]
    by (simp add: runOnModule_def)
qed

theorem no_validation_of_options_witness:
  "((0::int) \<le> 0 \<and> (- 1::int) \<le> 0)
   \<and> runOnModule rand_sevens \<lparr>XorKey = 170, BogusCount = - 1, Cycles = 0\<rparr> (initial demo_module)
       = Inr (False, initial demo_module)
   \<and> insertBogusFunctions rand_sevens (- 1) (initial demo_module) = (False, initial demo_module)
   \<and> runOnModule rand_sevens \<lparr>XorKey = 170, BogusCount = - 1, Cycles = 1\<rparr> (initial demo_module)
       = runOnModule rand_sevens \<lparr>XorKey = 170, BogusCount = 0, Cycles = 1\<rparr> (initial demo_module)
   \<and> runOnModule rand_sevens \<lparr>XorKey = 170, BogusCount = 0, Cycles = 1\<rparr> (initial demo_module)
       = Inr (True, (initial demo_encrypted)\<lparr>strings_obf_count := 1, cycles_completed := 1\<rparr>)"
proof -
  have cyc: "run_cycle rand_sevens \<lparr>XorKey = 170, BogusCount = 0, Cycles = 1\<rparr>
       (False, initial demo_module) =
     Inr (True, (initial demo_encrypted)\<lparr>strings_obf_count := 1, cycles_completed := 1\<rparr>)"
    by (rule demo_cycle) simp_all
  have n: "nat (Cycles \<lparr>XorKey = 170, BogusCount = 0, Cycles = 1\<rparr>) = Suc 0" by simp
  have run: "runOnModule rand_sevens \<lparr>XorKey = 170, BogusCount = 0, Cycles = 1\<rparr>
       (initial demo_module)
       = Inr (True, (initial demo_encrypted)\<lparr>strings_obf_count := 1, cycles_completed := 1\<rparr>)"
    unfolding runOnModule_def n by (simp only: run_cycles.simps cyc sum.case)
  show ?thesis
    using no_validation_of_options [of "\<lparr>XorKey = 170, BogusCount = - 1, Cycles = 0\<rparr>" rand_sevens
        "initial demo_module" False]
      no_validation_of_options [of "\<lparr>XorKey = 170, BogusCount = - 1, Cycles = 1\<rparr>" rand_sevens
        "initial demo_module" False]
      run
    by simp
qed

text \<open>
  C5, as claimed, fails: the claim has a second run of the Symbol Renamer leave the names
  of the first. In a module with the private globals \<^verbatim>\<open>x\<close> and \<^verbatim>\<open>x_obf\<close>, the first run
  asks the name \<^verbatim>\<open>x_obf\<close> for \<^verbatim>\<open>x\<close>; the name is taken, so the global becomes \<^verbatim>\<open>x_obf.1\<close>,
  which ends in neither suffix, and the second run renames it again.
\<close>

theorem renaming_twice_differs:
  "map gv_name (GlobalList (snd (renamePrivateGlobals clash_module))) = [''x_obf.1'', ''x_obf'']
   \<and> map gv_name (GlobalList (snd (renamePrivateGlobals (snd (renamePrivateGlobals clash_module)))))
       = [''x_obf.1_obf'', ''x_obf'']"
  unfolding clash_renamed_once
  by (simp add: renamePrivateGlobals_def toRename_def rename_global_def GV_setName_def
      clash_module_def endswith_def createValueName_free)

text \<open>
  C5, amended. When the new names of the globals that the Symbol Renamer selects (the old
  name followed by \<^verbatim>\<open>_obf\<close>) are pairwise distinct and none of them is a name of the
  module already, a second run changes nothing and reports no change: the module after
  two runs is the module after one. In every module, a global whose name ends in
  \<^verbatim>\<open>_obf\<close> or in \<^verbatim>\<open>_enc\<close> is left as it is.
\<close>

theorem renaming_twice_without_collision:
  "((distinct (map (\<lambda>i. gv_name (GlobalList M ! i) @ ''_obf'') (toRename M))
      \<and> (\<forall>i\<in>set (toRename M). gv_name (GlobalList M ! i) @ ''_obf'' \<notin> set (symbol_names M)))
     \<longrightarrow> renamePrivateGlobals (snd (renamePrivateGlobals M))
           = (False, snd (renamePrivateGlobals M)))
   \<and> (\<forall>j < length (GlobalList M).
         (endswith (gv_name (GlobalList M ! j)) ''_obf''
            \<or> endswith (gv_name (GlobalList M ! j)) ''_enc'')
         \<longrightarrow> GlobalList (snd (renamePrivateGlobals M)) ! j = GlobalList M ! j)"
  using rename_twice_exact [of M] rename_skips_suffixed [of _ M] by blast

theorem renaming_twice_without_collision_witness:
  "toRename demo_module = [0]
   \<and> gv_name (GlobalList demo_module ! 0) @ ''_obf'' \<notin> set (symbol_names demo_module)
   \<and> renamePrivateGlobals (snd (renamePrivateGlobals demo_module))
       = (False, snd (renamePrivateGlobals demo_module))
   \<and> endswith (gv_name (GlobalList demo_encrypted ! 0)) ''_obf''
   \<and> GlobalList (snd (renamePrivateGlobals demo_encrypted)) ! 0 = GlobalList demo_encrypted ! 0"
proof -
  have tr: "toRename demo_module = [0]"
    by (simp add: toRename_def demo_module_def string_constant_def endswith_def)
  have free: "gv_name (GlobalList demo_module ! 0) @ ''_obf'' \<notin> set (symbol_names demo_module)"
    by (simp add: demo_module_def string_constant_def symbol_names_def)
  have a: "distinct (map (\<lambda>i. gv_name (GlobalList demo_module ! i) @ ''_obf'') (toRename demo_module))"
    by (simp add: tr)
  have b: "\<forall>i\<in>set (toRename demo_module).
         gv_name (GlobalList demo_module ! i) @ ''_obf'' \<notin> set (symbol_names demo_module)"
    using free by (simp add: tr)
  have c: "endswith (gv_name (GlobalList demo_encrypted ! 0)) ''_obf''"
    by (simp add: demo_encrypted_def string_constant_def endswith_def)
  have d: "0 < length (GlobalList demo_encrypted)" by (simp add: demo_encrypted_def)
  from renaming_twice_without_collision [of demo_module]
    renaming_twice_without_collision [of demo_encrypted] a b c d tr free
  show ?thesis by blast
qed

text \<open>
  C6. No global with external linkage is mutated or renamed: \<^verbatim>\<open>obfuscateStrings\<close> never
  finds one and \<^verbatim>\<open>renamePrivateGlobals\<close> never selects one, in any module, and after a
  run of any number of cycles that completes, with any options, every global that had
  external linkage is, at its place in the module, exactly what it was.
\<close>

theorem external_globals_untouched:
  assumes "runOnModule rnd opts st = Inr (changed, st')"
    and "j < length (GlobalList (ps_module st))"
    and "gv_linkage (GlobalList (ps_module st) ! j) = ExternalLinkage"
  shows "(\<forall>M i. i \<in> set (stringGlobals M) \<longrightarrow> gv_linkage (GlobalList M ! i) \<noteq> ExternalLinkage)
     \<and> (\<forall>M i. i \<in> set (toRename M) \<longrightarrow> gv_linkage (GlobalList M ! i) \<noteq> ExternalLinkage)
     \<and> GlobalList (ps_module st') ! j = GlobalList (ps_module st) ! j"
proof -
  have "\<forall>M i. i \<in> set (stringGlobals M) \<longrightarrow> gv_linkage (GlobalList M ! i) \<noteq> ExternalLinkage"
    using is_string_globalD(3) by (simp add: stringGlobals_set)
  moreover have "\<forall>M i. i \<in> set (toRename M) \<longrightarrow> gv_linkage (GlobalList M ! i) \<noteq> ExternalLinkage"
    by (simp add: toRename_set)
  moreover have "GlobalList (ps_module st') ! j = GlobalList (ps_module st) ! j"
    using assms(1) unfolding runOnModule_def by (rule run_cycles_external [OF _ assms(2,3)])
  ultimately show ?thesis by simp
qed

theorem external_globals_untouched_witness:
  "runOnModule rand_sevens \<lparr>XorKey = 0xAA, BogusCount = 0, Cycles = 1\<rparr> (initial demo_module) =
     Inr (True, (initial demo_encrypted)\<lparr>strings_obf_count := 1, cycles_completed := 1\<rparr>)
   \<and> 1 < length (GlobalList demo_module)
   \<and> gv_linkage (GlobalList demo_module ! 1) = ExternalLinkage
   \<and> GlobalList demo_encrypted ! 1 = GlobalList demo_module ! 1"
proof -
  have "run_cycle rand_sevens \<lparr>XorKey = 0xAA, BogusCount = 0, Cycles = 1\<rparr> (False, initial demo_module) =
     Inr (True, (initial demo_encrypted)\<lparr>strings_obf_count := 1, cycles_completed := 1\<rparr>)"
    by (rule demo_cycle) simp_all
  then have run: "runOnModule rand_sevens \<lparr>XorKey = 0xAA, BogusCount = 0, Cycles = 1\<rparr>
      (initial demo_module) =
     Inr (True, (initial demo_encrypted)\<lparr>strings_obf_count := 1, cycles_completed := 1\<rparr>)"
    by (simp add: runOnModule_def)
  have lt: "1 < length (GlobalList (ps_module (initial demo_module)))"
    by (simp add: initial_def demo_module_def)
  have ext: "gv_linkage (GlobalList (ps_module (initial demo_module)) ! 1) = ExternalLinkage"
    by (simp add: initial_def demo_module_def string_constant_def)
  from external_globals_untouched [OF run lt ext] run lt ext
  show ?thesis by (simp add: initial_def)
qed

text \<open>
  C7. Involution: applying the encryptor's per-byte XOR with the low byte of the key twice
  gives every byte sequence back, for every key. The same holds for the vector built by
  \<^verbatim>\<open>encryptString\<close>: encrypting the characters of an encrypted vector (the vector without
  the pushed terminator) gives the original characters followed by the terminator.
\<close>

theorem xor_involution:
  "map (xor_byte k) (map (xor_byte k) s) = s
   \<and> encrypted_bytes k (butlast (encrypted_bytes k s)) = s @ [0]"
  by (simp add: encrypted_bytes_def xor_byte_twice map_idI)

text \<open>
  C8, as claimed, fails for string constants that the pass does not find or cannot read,
  and for names that are taken. LLVM stores the empty string as a zero initializer and
  not as a data array: with the key 0, a run of one cycle on a module whose only global is
  the internal constant empty string \<^verbatim>\<open>empty\<close> reports no change, leaves the global under
  its name and counts nothing. A constant data array that is not null-terminated is
  found, and the assertion of \<^verbatim>\<open>getAsCString\<close> fails: with the key 0, \<^verbatim>\<open>obfuscateStrings\<close>
  fails on a module with the string \<^verbatim>\<open>"ABC"\<close> and the private constant array \<^verbatim>\<open>41 42\<close>.
  And with \<^verbatim>\<open>.str_enc\<close> and \<^verbatim>\<open>.str_obf\<close> declared in the module, the string \<^verbatim>\<open>.str\<close> gets
  the name \<^verbatim>\<open>.str_obf.2\<close>, which does not end in the suffix.
\<close>

theorem empty_string_and_raw_array_with_zero_key:
  "runOnModule rand_sevens \<lparr>XorKey = 0, BogusCount = 0, Cycles = 1\<rparr> (initial empty_string_module)
     = Inr (False, (initial empty_string_module)\<lparr>cycles_completed := 1\<rparr>)
   \<and> GlobalList empty_string_module
       = [string_constant ''empty'' InternalLinkage (ConstantAggregateZero 1)]
   \<and> obfuscateStrings 0 (initial raw_module) = Inl AssertionFailed
   \<and> obfuscateStrings 0 (initial taken_module)
       = Inr (True, (initial (taken_encrypted (ConstantDataArray [0x41, 0x42, 0x43, 0x00])))
                      \<lparr>strings_obf_count := 1\<rparr>)
   \<and> gv_name (GlobalList taken_module ! 0) = ''.str''
   \<and> gv_name (GlobalList (taken_encrypted (ConstantDataArray [0x41, 0x42, 0x43, 0x00])) ! 0)
       = ''.str_obf.2''"
proof -
  let ?opts = "\<lparr>XorKey = 0, BogusCount = 0, Cycles = 1\<rparr>"
  have cyc: "run_cycle rand_sevens ?opts (False, initial empty_string_module)
      = Inr (False, (initial empty_string_module)\<lparr>cycles_completed := 1\<rparr>)"
    by (rule empty_string_cycle) simp
  have n: "nat (Cycles ?opts) = Suc 0" by simp
  have run: "runOnModule rand_sevens ?opts (initial empty_string_module)
      = Inr (False, (initial empty_string_module)\<lparr>cycles_completed := 1\<rparr>)"
    unfolding runOnModule_def n by (simp only: run_cycles.simps cyc sum.case)
  have enc: "encryptedData 0 [0x41, 0x42, 0x43, 0x00]
               = ConstantDataArray [0x41, 0x42, 0x43, 0x00]"
    by (simp add: encryptedData_def encrypted_bytes_def xor_byte_def ConstantDataArray_get_def)
  have tk: "obfuscateStrings 0 (initial taken_module)
       = Inr (True, (initial (taken_encrypted (ConstantDataArray [0x41, 0x42, 0x43, 0x00])))
                      \<lparr>strings_obf_count := 1\<rparr>)"
    using taken_obfuscateStrings [of 0] by (simp only: enc)
  have nm: "gv_name (GlobalList taken_module ! 0) = ''.str''"
    "gv_name (GlobalList (taken_encrypted (ConstantDataArray [0x41, 0x42, 0x43, 0x00])) ! 0)
       = ''.str_obf.2''"
    by (simp_all add: taken_module_def taken_encrypted_def string_constant_def)
  have el: "GlobalList empty_string_module
       = [string_constant ''empty'' InternalLinkage (ConstantAggregateZero 1)]"
    by (simp add: empty_string_module_def)
  from run el raw_obfuscateStrings [of 0] tk nm show ?thesis by (intro conjI)
qed

text \<open>
  C8, amended. Take a key whose low byte is 0 (the key 0 among them) and a string constant
  that \<^verbatim>\<open>obfuscateStrings\<close> finds: a constant global with an initializer, not of external
  linkage, whose initializer is a data array (a global with a zero initializer is never
  found). When \<^verbatim>\<open>obfuscateStrings\<close> completes, it reports a change; the string constant
  has the bytes it had; its name begins with its old name followed by \<^verbatim>\<open>_obf\<close>, and is
  exactly that when the names asked for (old name followed by \<^verbatim>\<open>_enc\<close>, and by \<^verbatim>\<open>_obf\<close>,
  for each string constant found) are pairwise distinct and none of them is a name of the
  module; the counter of encrypted strings increases by the number of string constants
  found, which is not zero; and the globals that are not found are left as they were.
  \<^verbatim>\<open>obfuscateStrings\<close> completes, reporting a change, when the data array of every string
  constant found is a C string (its last byte is zero and no other byte is), and fails in
  the assertion of \<^verbatim>\<open>getAsCString\<close> when one of them is not.
\<close>

theorem zero_key_still_renames_and_counts:
  assumes key: "key AND 0xFF = 0"
    and i: "i \<in> set (stringGlobals (ps_module st))"
    and bs: "gv_initializer (GlobalList (ps_module st) ! i) = Some (ConstantDataArray bs)"
  shows "(\<forall>c st'. obfuscateStrings key st = Inr (c, st') \<longrightarrow>
            c
          \<and> (\<exists>d. gv_initializer (GlobalList (ps_module st') ! i) = Some d
                  \<and> payload_bytes d = Some bs)
          \<and> prefix (gv_name (GlobalList (ps_module st) ! i) @ ''_obf'')
               (gv_name (GlobalList (ps_module st') ! i))
          \<and> (distinct (new_names (stringGlobals (ps_module st)) (ps_module st))
               \<and> set (new_names (stringGlobals (ps_module st)) (ps_module st))
                    \<inter> set (symbol_names (ps_module st)) = {}
               \<longrightarrow> gv_name (GlobalList (ps_module st') ! i)
                     = gv_name (GlobalList (ps_module st) ! i) @ ''_obf'')
          \<and> strings_obf_count st'
              = strings_obf_count st + of_nat (length (stringGlobals (ps_module st)))
          \<and> 0 < length (stringGlobals (ps_module st))
          \<and> (\<forall>j < length (GlobalList (ps_module st)). j \<notin> set (stringGlobals (ps_module st))
                \<longrightarrow> GlobalList (ps_module st') ! j = GlobalList (ps_module st) ! j))
     \<and> ((\<forall>j\<in>set (stringGlobals (ps_module st)). \<forall>cs.
            gv_initializer (GlobalList (ps_module st) ! j) = Some (ConstantDataArray cs)
            \<longrightarrow> isCString cs)
          \<longrightarrow> (\<exists>st'. obfuscateStrings key st = Inr (True, st')))
     \<and> ((\<exists>j\<in>set (stringGlobals (ps_module st)). \<exists>cs.
            gv_initializer (GlobalList (ps_module st) ! j) = Some (ConstantDataArray cs)
            \<and> \<not> isCString cs)
          \<longrightarrow> obfuscateStrings key st = Inl AssertionFailed)
     \<and> (\<forall>g n. gv_initializer g = Some (ConstantAggregateZero n) \<longrightarrow> \<not> is_string_global g)"
proof (intro conjI allI impI)
  have ne: "stringGlobals (ps_module st) \<noteq> []" using i by auto
  {
    fix c st'
    assume ok: "obfuscateStrings key st = Inr (c, st')"
    note post = obfuscateStrings_post [OF ok]
    show "c" using post(2) ne by simp
    from post(1) i have "encrypted_in_place key (GlobalList (ps_module st) ! i)
        (GlobalList (ps_module st') ! i)"
      by (simp add: found_post_def)
    with bs have cs: "isCString bs"
      and init: "gv_initializer (GlobalList (ps_module st') ! i) = Some (encryptedData key bs)"
      and pre: "prefix (gv_name (GlobalList (ps_module st) ! i) @ ''_obf'')
            (gv_name (GlobalList (ps_module st') ! i))"
      by (auto simp: encrypted_in_place_def)
    have "payload_bytes (encryptedData key bs) = Some bs"
      by (simp add: encryptedData_def encrypted_bytes_zero_key [OF key cs] payload_bytes_get)
    with init show "\<exists>d. gv_initializer (GlobalList (ps_module st') ! i) = Some d
                  \<and> payload_bytes d = Some bs" by simp
    show "prefix (gv_name (GlobalList (ps_module st) ! i) @ ''_obf'')
               (gv_name (GlobalList (ps_module st') ! i))" by (rule pre)
    show "strings_obf_count st'
              = strings_obf_count st + of_nat (length (stringGlobals (ps_module st)))"
      using post(1) by (simp add: found_post_def)
    show "0 < length (stringGlobals (ps_module st))" using ne by simp
    {
      fix j assume "j < length (GlobalList (ps_module st))"
        "j \<notin> set (stringGlobals (ps_module st))"
      then show "GlobalList (ps_module st') ! j = GlobalList (ps_module st) ! j"
        using post(1) by (simp add: found_post_def)
    }
    {
      assume free: "distinct (new_names (stringGlobals (ps_module st)) (ps_module st))
               \<and> set (new_names (stringGlobals (ps_module st)) (ps_module st))
                    \<inter> set (symbol_names (ps_module st)) = {}"
      from obfuscateStrings_exact(1) [OF ok conjunct1 [OF free] conjunct2 [OF free]] i
      show "gv_name (GlobalList (ps_module st') ! i)
                     = gv_name (GlobalList (ps_module st) ! i) @ ''_obf''"
        by simp
    }
  }
  {
    assume cstr: "\<forall>j\<in>set (stringGlobals (ps_module st)). \<forall>cs.
            gv_initializer (GlobalList (ps_module st) ! j) = Some (ConstantDataArray cs)
            \<longrightarrow> isCString cs"
    from obfuscateStrings_total [OF cstr, of key] ne
    show "\<exists>st'. obfuscateStrings key st = Inr (True, st')" by simp
  }
  {
    assume "\<exists>j\<in>set (stringGlobals (ps_module st)). \<exists>cs.
            gv_initializer (GlobalList (ps_module st) ! j) = Some (ConstantDataArray cs)
            \<and> \<not> isCString cs"
    then obtain j cs where "j \<in> set (stringGlobals (ps_module st))"
      "gv_initializer (GlobalList (ps_module st) ! j) = Some (ConstantDataArray cs)"
      "\<not> isCString cs" by blast
    then show "obfuscateStrings key st = Inl AssertionFailed"
      by (rule obfuscateStrings_fails)
  }
  {
    fix g :: GlobalVariable and n assume "gv_initializer g = Some (ConstantAggregateZero n)"
    then show "\<not> is_string_global g" by (rule zero_initializer_not_string)
  }
qed

theorem zero_key_still_renames_and_counts_witness:
  "(0::int) AND 0xFF = 0
   \<and> 0 \<in> set (stringGlobals demo_module)
   \<and> gv_initializer (GlobalList demo_module ! 0)
       = Some (ConstantDataArray [0x41, 0x42, 0x43, 0x00])
   \<and> isCString [0x41, 0x42, 0x43, 0x00 :: 8 word]
   \<and> distinct (new_names (stringGlobals demo_module) demo_module)
   \<and> set (new_names (stringGlobals demo_module) demo_module) \<inter> set (symbol_names demo_module) = {}
   \<and> (\<exists>st'. obfuscateStrings 0 (initial demo_module) = Inr (True, st')
        \<and> (\<exists>d. gv_initializer (GlobalList (ps_module st') ! 0) = Some d
               \<and> payload_bytes d = Some [0x41, 0x42, 0x43, 0x00])
        \<and> gv_name (GlobalList (ps_module st') ! 0) = ''.str_obf''
        \<and> strings_obf_count st' = 1
        \<and> GlobalList (ps_module st') ! 1 = GlobalList demo_module ! 1)"
proof -
  have key: "(0::int) AND 0xFF = 0" by simp
  have sg: "stringGlobals (ps_module (initial demo_module)) = [0]"
    by (simp add: initial_def demo_stringGlobals)
  have i: "0 \<in> set (stringGlobals (ps_module (initial demo_module)))"
    by (simp add: sg)
  have bs: "gv_initializer (GlobalList (ps_module (initial demo_module)) ! 0)
      = Some (ConstantDataArray [0x41, 0x42, 0x43, 0x00])"
    by (simp add: initial_def demo_module_def string_constant_def)
  have cs: "isCString [0x41, 0x42, 0x43, 0x00 :: 8 word]" by (simp add: isCString_def)
  have cstr: "\<forall>j\<in>set (stringGlobals (ps_module (initial demo_module))). \<forall>cs.
             gv_initializer (GlobalList (ps_module (initial demo_module)) ! j)
               = Some (ConstantDataArray cs) \<longrightarrow> isCString cs"
    by (simp add: sg) (simp add: initial_def demo_module_def string_constant_def isCString_def)
  have nm: "gv_name (GlobalList demo_module ! 0) = ''.str''"
    by (simp add: demo_module_def string_constant_def)
  have cnt: "strings_obf_count (initial demo_module) = 0" by (simp add: initial_def)
  have pm: "ps_module (initial demo_module) = demo_module" by (simp add: initial_def)
  have len: "length (GlobalList demo_module) = 2" by (simp add: demo_module_def)
  have free: "distinct (new_names (stringGlobals demo_module) demo_module)"
    "set (new_names (stringGlobals demo_module) demo_module) \<inter> set (symbol_names demo_module) = {}"
    by (simp_all add: demo_new_names demo_symbol_names)
  note t = zero_key_still_renames_and_counts [OF key i bs]
  from t [THEN conjunct2, THEN conjunct1, THEN mp, OF cstr]
  obtain st' where ok: "obfuscateStrings 0 (initial demo_module) = Inr (True, st')" by blast
  from t [THEN conjunct1, rule_format, OF ok] free
  have "(\<exists>d. gv_initializer (GlobalList (ps_module st') ! 0) = Some d
               \<and> payload_bytes d = Some [0x41, 0x42, 0x43, 0x00])
        \<and> gv_name (GlobalList (ps_module st') ! 0) = ''.str_obf''
        \<and> strings_obf_count st' = 1
        \<and> GlobalList (ps_module st') ! 1 = GlobalList demo_module ! 1"
    by (simp add: pm nm cnt len demo_stringGlobals)
  with ok key i bs cs free show ?thesis by (auto simp: pm)
qed

text \<open>
  C9, as claimed, fails: the claim has a global that was encrypted in one cycle encrypted
  again in every later cycle. With the string constant \<^verbatim>\<open>"A"\<close> and the key \<^verbatim>\<open>0x41\<close>, the
  first cycle leaves two zero bytes, which LLVM keeps as a zero initializer and not as a
  data array: the second cycle finds no string constant, and after two cycles the global
  has one suffix and the counter of encrypted strings is 1. With the string constant
  \<^verbatim>\<open>"AB"\<close> and the same key, the first cycle leaves the bytes \<^verbatim>\<open>00 03 00\<close>, a data array
  with a zero byte before its end, which is not a C string: the second cycle fails in the
  assertion of \<^verbatim>\<open>getAsCString\<close>, and the run of two cycles does not complete.
\<close>

theorem later_cycle_skips_or_fails:
  "runOnModule rand_sevens \<lparr>XorKey = 0x41, BogusCount = 0, Cycles = 2\<rparr> (initial a_module) =
     Inr (True, (initial a_encrypted)\<lparr>strings_obf_count := 1, cycles_completed := 2\<rparr>)
   \<and> GlobalList a_encrypted ! 0
       = string_constant ''.str_obf'' PrivateLinkage (ConstantAggregateZero 2)
   \<and> stringGlobals a_encrypted = []
   \<and> runOnModule rand_sevens \<lparr>XorKey = 0x41, BogusCount = 0, Cycles = 2\<rparr> (initial ab_module)
       = Inl AssertionFailed
   \<and> GlobalList ab_module
       = [string_constant ''.str'' PrivateLinkage (ConstantDataArray [0x41, 0x42, 0x00])]"
proof -
  let ?opts = "\<lparr>XorKey = 0x41, BogusCount = 0, Cycles = 2\<rparr>"
  let ?st1 = "(initial a_encrypted)\<lparr>strings_obf_count := 1\<rparr>"
  let ?st1' = "(initial a_encrypted)\<lparr>strings_obf_count := 1, cycles_completed := 1\<rparr>"
  let ?st2' = "(initial a_encrypted)\<lparr>strings_obf_count := 1, cycles_completed := 2\<rparr>"
  have os1: "obfuscateStrings (XorKey ?opts) (initial a_module) = Inr (True, ?st1)"
    using a_obfuscateStrings by simp
  have ib1: "insertBogusFunctions rand_sevens (BogusCount ?opts) ?st1 = (False, ?st1)"
    by (rule insertBogusFunctions_none) simp
  have rn1: "renamePrivateGlobals (ps_module ?st1) = (False, a_encrypted)"
    using a_encrypted_rename by (simp add: initial_def)
  have dc: "insertDeadConditionals a_encrypted = (False, a_encrypted)"
    by (rule no_functions_no_dead_conditional) (simp add: a_encrypted_def)
  have cyc1: "run_cycle rand_sevens ?opts (False, initial a_module) = Inr (True, ?st1')"
    using run_cycle_steps [OF os1 ib1 rn1 dc, of False] by (simp add: initial_def)
  have os2: "obfuscateStrings (XorKey ?opts) ?st1' = Inr (False, ?st1')"
    by (simp add: obfuscateStrings_def initial_def a_encrypted_stringGlobals)
  have ib2: "insertBogusFunctions rand_sevens (BogusCount ?opts) ?st1' = (False, ?st1')"
    by (rule insertBogusFunctions_none) simp
  have rn2: "renamePrivateGlobals (ps_module ?st1') = (False, a_encrypted)"
    using a_encrypted_rename by (simp add: initial_def)
  have cyc2: "run_cycle rand_sevens ?opts (True, ?st1') = Inr (True, ?st2')"
    using run_cycle_steps [OF os2 ib2 rn2 dc, of True] by (simp add: initial_def)
  have n: "nat (Cycles ?opts) = Suc (Suc 0)" by simp
  have run: "runOnModule rand_sevens ?opts (initial a_module) = Inr (True, ?st2')"
    unfolding runOnModule_def n
    by (simp only: run_cycles.simps cyc1 cyc2 sum.case)
  have g: "GlobalList a_encrypted ! 0
       = string_constant ''.str_obf'' PrivateLinkage (ConstantAggregateZero 2)"
    by (simp add: a_encrypted_def)
  have ab: "GlobalList ab_module
       = [string_constant ''.str'' PrivateLinkage (ConstantDataArray [0x41, 0x42, 0x00])]"
    by (simp add: ab_module_def)
  from run g a_encrypted_stringGlobals ab_two_cycles ab show ?thesis by (intro conjI)
qed

text \<open>
  C9, amended. Whether a global is a string constant for \<^verbatim>\<open>obfuscateStrings\<close> does not
  depend on its name. Take a string constant that \<^verbatim>\<open>obfuscateStrings\<close> finds, and let \<open>k\<close>
  be the low byte of the key.

  \<^item> When one of its characters is not \<open>k\<close>: in a cycle that completes, its characters are
    XORed with \<open>k\<close> (the terminator stays 0), it gets a name that begins with its old
    name followed by \<^verbatim>\<open>_obf\<close>, and the counter of encrypted strings increases by the number
    of string constants found in that cycle; after the cycle it is again a string
    constant that \<^verbatim>\<open>obfuscateStrings\<close> finds, again with a character that is not \<open>k\<close>.

  \<^item> When every string constant found in the module is a C string (its last byte is zero
    and no other byte is) none of whose characters is \<open>k\<close>, and this one is not empty:
    the run of \<open>n\<close> cycles completes, for every \<open>n\<close>; after it the string constant is
    still found, its payload has been encrypted \<open>n\<close> times, its name begins with the name
    it had and is at least \<open>4 * n\<close> characters longer, and again every string constant
    found in the module is a C string none of whose characters is \<open>k\<close>.

  \<^item> When all its characters are \<open>k\<close>: after a cycle that completes its initializer is
    the zero initializer of the same length, and after any number of further cycles of
    a run that completes it has that initializer and is not found.

  \<^item> When one of its characters is \<open>k\<close> and another is not: after a cycle that completes,
    the next cycle fails in the assertion of \<^verbatim>\<open>getAsCString\<close>.
\<close>

theorem string_global_encrypted_again:
  assumes i: "i \<in> set (stringGlobals (ps_module st))"
    and bs: "gv_initializer (GlobalList (ps_module st) ! i) = Some (ConstantDataArray bs)"
  shows "(\<forall>g n. is_string_global (g\<lparr>gv_name := n\<rparr>) = is_string_global g)
     \<and> ((\<exists>c\<in>set (butlast bs). c \<noteq> word_of_int (XorKey opts)) \<longrightarrow>
        (\<forall>ch ch' st'. run_cycle rnd opts (ch, st) = Inr (ch', st') \<longrightarrow>
          gv_initializer (GlobalList (ps_module st') ! i)
            = Some (ConstantDataArray (encrypted_bytes (XorKey opts) (butlast bs)))
          \<and> prefix (gv_name (GlobalList (ps_module st) ! i) @ ''_obf'')
               (gv_name (GlobalList (ps_module st') ! i))
          \<and> strings_obf_count st'
              = strings_obf_count st + of_nat (length (stringGlobals (ps_module st)))
          \<and> i \<in> set (stringGlobals (ps_module st'))
          \<and> (\<exists>c\<in>set (butlast (encrypted_bytes (XorKey opts) (butlast bs))).
                c \<noteq> word_of_int (XorKey opts))))
     \<and> (key_free_strings (XorKey opts) (ps_module st) \<and> butlast bs \<noteq> [] \<longrightarrow>
        (\<forall>n ch. \<exists>ch' st'. run_cycles n rnd opts (ch, st) = Inr (ch', st')
          \<and> i \<in> set (stringGlobals (ps_module st'))
          \<and> gv_initializer (GlobalList (ps_module st') ! i)
              = Some (ConstantDataArray
                  (((\<lambda>b. encrypted_bytes (XorKey opts) (butlast b)) ^^ n) bs))
          \<and> prefix (gv_name (GlobalList (ps_module st) ! i))
               (gv_name (GlobalList (ps_module st') ! i))
          \<and> length (gv_name (GlobalList (ps_module st) ! i)) + 4 * n
              \<le> length (gv_name (GlobalList (ps_module st') ! i))
          \<and> key_free_strings (XorKey opts) (ps_module st')))
     \<and> (set (butlast bs) \<subseteq> {word_of_int (XorKey opts)} \<longrightarrow>
        (\<forall>ch ch' st'. run_cycle rnd opts (ch, st) = Inr (ch', st') \<longrightarrow>
          gv_initializer (GlobalList (ps_module st') ! i)
            = Some (ConstantAggregateZero (length bs))
          \<and> (\<forall>n ch'' st''. run_cycles n rnd opts (ch', st') = Inr (ch'', st'') \<longrightarrow>
                i \<notin> set (stringGlobals (ps_module st''))
              \<and> gv_initializer (GlobalList (ps_module st'') ! i)
                  = Some (ConstantAggregateZero (length bs)))))
     \<and> (word_of_int (XorKey opts) \<in> set (butlast bs)
          \<and> (\<exists>c\<in>set (butlast bs). c \<noteq> word_of_int (XorKey opts)) \<longrightarrow>
        (\<forall>ch ch' st' ch''. run_cycle rnd opts (ch, st) = Inr (ch', st') \<longrightarrow>
          run_cycle rnd opts (ch'', st') = Inl AssertionFailed))"
proof -
  have name: "\<forall>g n. is_string_global (g\<lparr>gv_name := n\<rparr>) = is_string_global g"
    by (simp add: is_string_global_name)
  have one: "(\<exists>c\<in>set (butlast bs). c \<noteq> word_of_int (XorKey opts)) \<longrightarrow>
        (\<forall>ch ch' st'. run_cycle rnd opts (ch, st) = Inr (ch', st') \<longrightarrow>
          gv_initializer (GlobalList (ps_module st') ! i)
            = Some (ConstantDataArray (encrypted_bytes (XorKey opts) (butlast bs)))
          \<and> prefix (gv_name (GlobalList (ps_module st) ! i) @ ''_obf'')
               (gv_name (GlobalList (ps_module st') ! i))
          \<and> strings_obf_count st'
              = strings_obf_count st + of_nat (length (stringGlobals (ps_module st)))
          \<and> i \<in> set (stringGlobals (ps_module st'))
          \<and> (\<exists>c\<in>set (butlast (encrypted_bytes (XorKey opts) (butlast bs))).
                c \<noteq> word_of_int (XorKey opts)))"
  proof (intro impI allI)
    fix ch ch' st'
    assume key: "\<exists>c\<in>set (butlast bs). c \<noteq> word_of_int (XorKey opts)"
      and cyc: "run_cycle rnd opts (ch, st) = Inr (ch', st')"
    note r = run_cycle_string_global [OF cyc i bs key]
    from r(1) r(2) r(3) r(4) r(5)
    show "gv_initializer (GlobalList (ps_module st') ! i)
            = Some (ConstantDataArray (encrypted_bytes (XorKey opts) (butlast bs)))
          \<and> prefix (gv_name (GlobalList (ps_module st) ! i) @ ''_obf'')
               (gv_name (GlobalList (ps_module st') ! i))
          \<and> strings_obf_count st'
              = strings_obf_count st + of_nat (length (stringGlobals (ps_module st)))
          \<and> i \<in> set (stringGlobals (ps_module st'))
          \<and> (\<exists>c\<in>set (butlast (encrypted_bytes (XorKey opts) (butlast bs))).
                c \<noteq> word_of_int (XorKey opts))"
      by (intro conjI)
  qed
  have many: "key_free_strings (XorKey opts) (ps_module st) \<and> butlast bs \<noteq> [] \<longrightarrow>
        (\<forall>n ch. \<exists>ch' st'. run_cycles n rnd opts (ch, st) = Inr (ch', st')
          \<and> i \<in> set (stringGlobals (ps_module st'))
          \<and> gv_initializer (GlobalList (ps_module st') ! i)
              = Some (ConstantDataArray
                  (((\<lambda>b. encrypted_bytes (XorKey opts) (butlast b)) ^^ n) bs))
          \<and> prefix (gv_name (GlobalList (ps_module st) ! i))
               (gv_name (GlobalList (ps_module st') ! i))
          \<and> length (gv_name (GlobalList (ps_module st) ! i)) + 4 * n
              \<le> length (gv_name (GlobalList (ps_module st') ! i))
          \<and> key_free_strings (XorKey opts) (ps_module st'))"
  proof (intro impI allI)
    fix n ch
    assume h: "key_free_strings (XorKey opts) (ps_module st) \<and> butlast bs \<noteq> []"
    then have kf: "key_free_strings (XorKey opts) (ps_module st)" and ne: "butlast bs \<noteq> []"
      by simp_all
    from key_free_stringD(2) [OF kf i bs] ne
    have key: "\<exists>c\<in>set (butlast bs). c \<noteq> word_of_int (XorKey opts)"
      by (cases "butlast bs") auto
    from run_cycles_total [OF kf, of n rnd ch] obtain ch' st'
      where run: "run_cycles n rnd opts (ch, st) = Inr (ch', st')" by blast
    from run_cycles_string_global [OF run i bs key] run_cycles_key_free [OF run kf] run
    show "\<exists>ch' st'. run_cycles n rnd opts (ch, st) = Inr (ch', st')
          \<and> i \<in> set (stringGlobals (ps_module st'))
          \<and> gv_initializer (GlobalList (ps_module st') ! i)
              = Some (ConstantDataArray
                  (((\<lambda>b. encrypted_bytes (XorKey opts) (butlast b)) ^^ n) bs))
          \<and> prefix (gv_name (GlobalList (ps_module st) ! i))
               (gv_name (GlobalList (ps_module st') ! i))
          \<and> length (gv_name (GlobalList (ps_module st) ! i)) + 4 * n
              \<le> length (gv_name (GlobalList (ps_module st') ! i))
          \<and> key_free_strings (XorKey opts) (ps_module st')"
      by blast
  qed
  have allkey: "set (butlast bs) \<subseteq> {word_of_int (XorKey opts)} \<longrightarrow>
        (\<forall>ch ch' st'. run_cycle rnd opts (ch, st) = Inr (ch', st') \<longrightarrow>
          gv_initializer (GlobalList (ps_module st') ! i)
            = Some (ConstantAggregateZero (length bs))
          \<and> (\<forall>n ch'' st''. run_cycles n rnd opts (ch', st') = Inr (ch'', st'') \<longrightarrow>
                i \<notin> set (stringGlobals (ps_module st''))
              \<and> gv_initializer (GlobalList (ps_module st'') ! i)
                  = Some (ConstantAggregateZero (length bs))))"
  proof (intro impI allI)
    fix ch ch' st'
    assume ak: "set (butlast bs) \<subseteq> {word_of_int (XorKey opts)}"
      and cyc: "run_cycle rnd opts (ch, st) = Inr (ch', st')"
    note post = run_cycle_post [OF cyc]
    from post i have eip: "encrypted_in_place (XorKey opts) (GlobalList (ps_module st) ! i)
        (GlobalList (ps_module st') ! i)"
      by (simp add: cycle_post_def)
    with bs have cs: "isCString bs"
      and init: "gv_initializer (GlobalList (ps_module st') ! i)
                   = Some (encryptedData (XorKey opts) bs)"
      by (auto simp: encrypted_in_place_def)
    have z: "gv_initializer (GlobalList (ps_module st') ! i)
               = Some (ConstantAggregateZero (length bs))"
      using init encryptedData_all_key [OF cs ak] by simp
    have lt: "i < length (GlobalList (ps_module st'))"
      using post i by (simp add: cycle_post_def stringGlobals_set)
    have nf: "i \<notin> set (stringGlobals (ps_module st'))"
      using zero_initializer_not_string [OF z] by (simp add: stringGlobals_set)
    have later: "i \<notin> set (stringGlobals (ps_module st''))
              \<and> gv_initializer (GlobalList (ps_module st'') ! i)
                  = Some (ConstantAggregateZero (length bs))"
      if "run_cycles n rnd opts (ch', st') = Inr (ch'', st'')" for n ch'' st''
      using run_cycles_unfound [OF that lt nf] z by simp
    from z later
    show "gv_initializer (GlobalList (ps_module st') ! i)
            = Some (ConstantAggregateZero (length bs))
          \<and> (\<forall>n ch'' st''. run_cycles n rnd opts (ch', st') = Inr (ch'', st'') \<longrightarrow>
                i \<notin> set (stringGlobals (ps_module st''))
              \<and> gv_initializer (GlobalList (ps_module st'') ! i)
                  = Some (ConstantAggregateZero (length bs)))"
      by blast
  qed
  have fails: "word_of_int (XorKey opts) \<in> set (butlast bs)
          \<and> (\<exists>c\<in>set (butlast bs). c \<noteq> word_of_int (XorKey opts)) \<longrightarrow>
        (\<forall>ch ch' st' ch''. run_cycle rnd opts (ch, st) = Inr (ch', st') \<longrightarrow>
          run_cycle rnd opts (ch'', st') = Inl AssertionFailed)"
  proof (intro impI allI)
    fix ch ch' st' ch''
    assume h: "word_of_int (XorKey opts) \<in> set (butlast bs)
          \<and> (\<exists>c\<in>set (butlast bs). c \<noteq> word_of_int (XorKey opts))"
      and cyc: "run_cycle rnd opts (ch, st) = Inr (ch', st')"
    from h have mem: "word_of_int (XorKey opts) \<in> set (butlast bs)"
      and key: "\<exists>c\<in>set (butlast bs). c \<noteq> word_of_int (XorKey opts)" by simp_all
    note r = run_cycle_string_global [OF cyc i bs key]
    show "run_cycle rnd opts (ch'', st') = Inl AssertionFailed"
      by (rule run_cycle_fails [OF r(4) r(1) encrypted_not_CString [OF mem]])
  qed
  from name one many allkey fails show ?thesis by (intro conjI)
qed

theorem string_global_encrypted_again_witness:
  "0 \<in> set (stringGlobals demo_module)
   \<and> gv_initializer (GlobalList demo_module ! 0)
       = Some (ConstantDataArray [0x41, 0x42, 0x43, 0x00])
   \<and> key_free_strings 0xAA demo_module
   \<and> butlast [0x41, 0x42, 0x43, 0x00 :: 8 word] \<noteq> []
   \<and> (\<exists>ch' st'. run_cycles 2 rand_sevens \<lparr>XorKey = 0xAA, BogusCount = 0, Cycles = 2\<rparr>
                    (False, initial demo_module) = Inr (ch', st')
        \<and> 0 \<in> set (stringGlobals (ps_module st'))
        \<and> gv_initializer (GlobalList (ps_module st') ! 0)
            = Some (ConstantDataArray [0x41, 0x42, 0x43, 0x00])
        \<and> prefix ''.str'' (gv_name (GlobalList (ps_module st') ! 0))
        \<and> 12 \<le> length (gv_name (GlobalList (ps_module st') ! 0)))
   \<and> run_cycle rand_sevens \<lparr>XorKey = 0xAA, BogusCount = 0, Cycles = 2\<rparr>
       (False, initial demo_module) =
     Inr (True, (initial demo_encrypted)\<lparr>strings_obf_count := 1, cycles_completed := 1\<rparr>)
   \<and> gv_initializer (GlobalList demo_encrypted ! 0)
       = Some (ConstantDataArray (encrypted_bytes 0xAA [0x41, 0x42, 0x43]))
   \<and> 0 \<in> set (stringGlobals demo_encrypted)"
proof -
  let ?opts = "\<lparr>XorKey = 0xAA, BogusCount = 0, Cycles = 2\<rparr>"
  have pm: "ps_module (initial demo_module) = demo_module" by (simp add: initial_def)
  have i: "0 \<in> set (stringGlobals (ps_module (initial demo_module)))"
    by (simp add: initial_def demo_stringGlobals)
  have bs: "gv_initializer (GlobalList (ps_module (initial demo_module)) ! 0)
      = Some (ConstantDataArray [0x41, 0x42, 0x43, 0x00])"
    by (simp add: initial_def demo_module_def string_constant_def)
  have kf: "key_free_strings (XorKey ?opts) (ps_module (initial demo_module))
      \<and> butlast [0x41, 0x42, 0x43, 0x00 :: 8 word] \<noteq> []"
    using demo_key_free by (simp add: pm)
  have key: "\<exists>c\<in>set (butlast [0x41, 0x42, 0x43, 0x00 :: 8 word]). c \<noteq> word_of_int (XorKey ?opts)"
    by simp
  have cyc: "run_cycle rand_sevens ?opts (False, initial demo_module) =
     Inr (True, (initial demo_encrypted)\<lparr>strings_obf_count := 1, cycles_completed := 1\<rparr>)"
    by (rule demo_cycle) simp_all
  have nm: "gv_name (GlobalList demo_module ! 0) = ''.str''"
    by (simp add: demo_module_def string_constant_def)
  note t = string_global_encrypted_again [OF i bs, of ?opts rand_sevens]
  note t1 = t [THEN conjunct2, THEN conjunct1, THEN mp, OF key, rule_format, OF cyc]
  note t2 = t [THEN conjunct2, THEN conjunct2, THEN conjunct1, THEN mp, OF kf, rule_format,
      of 2 False]
  from t2 have many: "\<exists>ch' st'. run_cycles 2 rand_sevens ?opts (False, initial demo_module)
          = Inr (ch', st')
        \<and> 0 \<in> set (stringGlobals (ps_module st'))
        \<and> gv_initializer (GlobalList (ps_module st') ! 0)
            = Some (ConstantDataArray [0x41, 0x42, 0x43, 0x00])
        \<and> prefix ''.str'' (gv_name (GlobalList (ps_module st') ! 0))
        \<and> 12 \<le> length (gv_name (GlobalList (ps_module st') ! 0))"
    by (simp add: pm nm encrypt_demo_twice) blast
  from t1 have once: "gv_initializer (GlobalList demo_encrypted ! 0)
       = Some (ConstantDataArray (encrypted_bytes 0xAA [0x41, 0x42, 0x43]))
     \<and> 0 \<in> set (stringGlobals demo_encrypted)"
    by (simp add: initial_def)
  from i bs kf many cyc once show ?thesis by (simp add: pm)
qed

text \<open>
  C10, as claimed, fails when the name is taken: the claim has the new global named with
  the original name followed by \<^verbatim>\<open>_enc\<close>. With \<^verbatim>\<open>.str_enc\<close> and \<^verbatim>\<open>.str_obf\<close> declared in the
  module, the copy of the string \<^verbatim>\<open>.str\<close> is the global \<^verbatim>\<open>.str_enc.1\<close> (and the string itself
  becomes \<^verbatim>\<open>.str_obf.2\<close>).
\<close>

theorem copy_name_taken:
  "obfuscateStrings 0xAA (initial taken_module)
     = Inr (True, (initial (taken_encrypted (ConstantDataArray [0xEB, 0xE8, 0xE9, 0x00])))
                    \<lparr>strings_obf_count := 1\<rparr>)
   \<and> map gv_name (GlobalList taken_module) = [''.str'', ''.str_enc'', ''.str_obf'']
   \<and> map gv_name (GlobalList (taken_encrypted (ConstantDataArray [0xEB, 0xE8, 0xE9, 0x00])))
       = [''.str_obf.2'', ''.str_enc'', ''.str_obf'', ''.str_enc.1'']
   \<and> GlobalList (taken_encrypted (ConstantDataArray [0xEB, 0xE8, 0xE9, 0x00])) ! 3
       = string_constant ''.str_enc.1'' PrivateLinkage (ConstantDataArray [0xEB, 0xE8, 0xE9, 0x00])"
proof -
  have enc: "encryptedData 0xAA [0x41, 0x42, 0x43, 0x00]
               = ConstantDataArray [0xEB, 0xE8, 0xE9, 0x00]"
    by (simp add: encryptedData_def encrypted_bytes_def xor_byte_def ConstantDataArray_get_def)
  have tk: "obfuscateStrings 0xAA (initial taken_module)
     = Inr (True, (initial (taken_encrypted (ConstantDataArray [0xEB, 0xE8, 0xE9, 0x00])))
                    \<lparr>strings_obf_count := 1\<rparr>)"
    using taken_obfuscateStrings [of "0xAA"] by (simp only: enc)
  have nm: "map gv_name (GlobalList taken_module) = [''.str'', ''.str_enc'', ''.str_obf'']"
    "map gv_name (GlobalList (taken_encrypted (ConstantDataArray [0xEB, 0xE8, 0xE9, 0x00])))
       = [''.str_obf.2'', ''.str_enc'', ''.str_obf'', ''.str_enc.1'']"
    "GlobalList (taken_encrypted (ConstantDataArray [0xEB, 0xE8, 0xE9, 0x00])) ! 3
       = string_constant ''.str_enc.1'' PrivateLinkage (ConstantDataArray [0xEB, 0xE8, 0xE9, 0x00])"
    by (simp_all add: taken_module_def taken_encrypted_def string_constant_def
        external_declaration_def)
  from tk nm show ?thesis by (intro conjI)
qed

text \<open>
  C10, amended. For each string constant it encrypts, in a call that completes,
  \<^verbatim>\<open>obfuscateStrings\<close> appends one new global to the module: private, constant, initialized
  with the encrypted bytes, with a name that begins with the name the encrypted global
  had, followed by \<^verbatim>\<open>_enc\<close>. The name is exactly that one when the names asked for (old
  name followed by \<^verbatim>\<open>_enc\<close>, and by \<^verbatim>\<open>_obf\<close>, for each string constant found) are pairwise
  distinct and none of them is a name of the module; and for one call of
  \<^verbatim>\<open>encryptString\<close>, when the old name followed by \<^verbatim>\<open>_enc\<close> is not a name of the module.
  The number of globals grows by the number of string constants found, as the counter
  does; the functions of the module, and so every instruction, and the globals that are
  not found are left as they were, so nothing refers to the new global.
\<close>

theorem encrypted_copy_appended:
  assumes "obfuscateStrings key st = Inr (c, st')"
  shows "length (GlobalList (ps_module st'))
           = length (GlobalList (ps_module st)) + length (stringGlobals (ps_module st))
     \<and> (\<forall>k < length (stringGlobals (ps_module st)).
           encrypted_copy key (GlobalList (ps_module st) ! (stringGlobals (ps_module st) ! k))
             (GlobalList (ps_module st') ! (length (GlobalList (ps_module st)) + k)))
     \<and> (distinct (new_names (stringGlobals (ps_module st)) (ps_module st))
          \<and> set (new_names (stringGlobals (ps_module st)) (ps_module st))
               \<inter> set (symbol_names (ps_module st)) = {}
          \<longrightarrow> (\<forall>k < length (stringGlobals (ps_module st)).
                 gv_name (GlobalList (ps_module st') ! (length (GlobalList (ps_module st)) + k))
                   = gv_name (GlobalList (ps_module st) ! (stringGlobals (ps_module st) ! k))
                     @ ''_enc''))
     \<and> (\<forall>j < length (GlobalList (ps_module st)). j \<notin> set (stringGlobals (ps_module st))
           \<longrightarrow> GlobalList (ps_module st') ! j = GlobalList (ps_module st) ! j)
     \<and> FunctionList (ps_module st') = FunctionList (ps_module st)
     \<and> strings_obf_count st'
         = strings_obf_count st + of_nat (length (stringGlobals (ps_module st)))
     \<and> (\<forall>M i M'. encryptString key M i = Inr M' \<longrightarrow> i < length (GlobalList M) \<longrightarrow>
           gv_name (GlobalList M ! i) @ ''_enc'' \<notin> set (symbol_names M) \<longrightarrow>
           gv_name (GlobalList M' ! length (GlobalList M)) = gv_name (GlobalList M ! i) @ ''_enc'')"
proof -
  have exact: "distinct (new_names (stringGlobals (ps_module st)) (ps_module st))
          \<and> set (new_names (stringGlobals (ps_module st)) (ps_module st))
               \<inter> set (symbol_names (ps_module st)) = {}
          \<longrightarrow> (\<forall>k < length (stringGlobals (ps_module st)).
                 gv_name (GlobalList (ps_module st') ! (length (GlobalList (ps_module st)) + k))
                   = gv_name (GlobalList (ps_module st) ! (stringGlobals (ps_module st) ! k))
                     @ ''_enc'')"
    using obfuscateStrings_exact(2) [OF assms] by blast
  show ?thesis
    using obfuscateStrings_post(1) [OF assms] encryptString_copy_name exact
    by (simp add: found_post_def)
qed

theorem encrypted_copy_appended_witness:
  "obfuscateStrings 0xAA (initial demo_module)
     = Inr (True, (initial demo_encrypted)\<lparr>strings_obf_count := 1\<rparr>)
   \<and> distinct (new_names (stringGlobals demo_module) demo_module)
   \<and> set (new_names (stringGlobals demo_module) demo_module) \<inter> set (symbol_names demo_module) = {}
   \<and> length (GlobalList demo_encrypted) = length (GlobalList demo_module) + 1
   \<and> encrypted_copy 0xAA (GlobalList demo_module ! 0) (GlobalList demo_encrypted ! 2)
   \<and> gv_name (GlobalList demo_encrypted ! 2) = gv_name (GlobalList demo_module ! 0) @ ''_enc''
   \<and> GlobalList demo_encrypted ! 2
       = string_constant ''.str_enc'' PrivateLinkage (ConstantDataArray [0xEB, 0xE8, 0xE9, 0x00])"
proof -
  have "GlobalList demo_encrypted ! 2
       = string_constant ''.str_enc'' PrivateLinkage (ConstantDataArray [0xEB, 0xE8, 0xE9, 0x00])"
    by (simp add: demo_encrypted_def)
  moreover have "length (GlobalList demo_module) = 2" by (simp add: demo_module_def)
  moreover have "distinct (new_names (stringGlobals demo_module) demo_module)"
    "set (new_names (stringGlobals demo_module) demo_module) \<inter> set (symbol_names demo_module) = {}"
    by (simp_all add: demo_new_names demo_symbol_names)
  ultimately show ?thesis
    using encrypted_copy_appended [OF demo_obfuscateStrings] demo_obfuscateStrings
    by (simp add: initial_def demo_stringGlobals)
qed

end
